theory Spec2Isabelle
  imports Main "HOL-Library.Word"
begin

unbundle bit_operations_syntax

section \<open>setpci: register specifications and batch execution\<close>

text \<open>
  A shallow embedding of \<^verbatim>\<open>setpci.c\<close> (The PCI Utilities, 1998--2008): the parser of
  register specifications (\<^verbatim>\<open>parse_x32\<close>, \<^verbatim>\<open>parse_reg_name\<close>, \<^verbatim>\<open>parse_register\<close>,
  \<^verbatim>\<open>parse_op\<close>, \<^verbatim>\<open>parse_filter\<close>, \<^verbatim>\<open>parse_ops\<close>), the device selector
  (\<^verbatim>\<open>select_devices\<close>) and the execution engine (\<^verbatim>\<open>exec_op\<close>, \<^verbatim>\<open>execute\<close>).
  \<^verbatim>\<open>unsigned int\<close> is a 32-bit word. \<^verbatim>\<open>usage\<close> and \<^verbatim>\<open>die\<close> leave the program; they
  are values of the type \<open>error\<close>.
\<close>

type_synonym u32 = "32 word"

subsection \<open>The C library functions the parser calls\<close>

text \<open>
  The width of \<^verbatim>\<open>unsigned long\<close> depends on the platform; \<^verbatim>\<open>strtoul\<close> and the
  constant \<^verbatim>\<open>~0UL\<close> of \<^verbatim>\<open>parse_op\<close> depend on it.
\<close>

datatype abi = ILP32 | LP64

fun ulong_bits :: "abi \<Rightarrow> nat" where
  "ulong_bits ILP32 = 32"
| "ulong_bits LP64 = 64"

definition ulong_max :: "abi \<Rightarrow> nat" where
  "ulong_max a = 2 ^ ulong_bits a - 1"

text \<open>\<^verbatim>\<open>tolower\<close> in the C locale.\<close>

definition c_tolower :: "char \<Rightarrow> char" where
  "c_tolower c =
     (case map_of (zip ''ABCDEFGHIJKLMNOPQRSTUVWXYZ'' ''abcdefghijklmnopqrstuvwxyz'') c of
        Some l \<Rightarrow> l
      | None \<Rightarrow> c)"

text \<open>\<^verbatim>\<open>!strcasecmp(a, b)\<close>: the two strings are equal up to the case of letters.\<close>

definition strcasecmp_eq :: "string \<Rightarrow> string \<Rightarrow> bool" where
  "strcasecmp_eq a b = (map c_tolower a = map c_tolower b)"

text \<open>\<^verbatim>\<open>!strncasecmp(a, b, n)\<close>: the same on the first \<open>n\<close> characters of each.\<close>

definition strncasecmp_eq :: "string \<Rightarrow> string \<Rightarrow> nat \<Rightarrow> bool" where
  "strncasecmp_eq a b n = (map c_tolower (take n a) = map c_tolower (take n b))"

text \<open>
  \<^verbatim>\<open>p = strchr(s, c); if (p) *p++ = 0;\<close> cuts \<open>s\<close> at the first \<open>c\<close>: the part before
  stays in \<open>s\<close>, \<open>p\<close> is the part after; \<open>None\<close> is the null pointer.
\<close>

fun strchr_cut :: "char \<Rightarrow> string \<Rightarrow> string \<times> string option" where
  "strchr_cut c [] = ([], None)"
| "strchr_cut c (x # xs) =
     (if x = c then ([], Some xs)
      else (case strchr_cut c xs of (a, p) \<Rightarrow> (x # a, p)))"

definition c_isspace :: "char \<Rightarrow> bool" where
  "c_isspace c = (c \<in> set [CHR '' '', CHR 0x09, CHR 0x0A, CHR 0x0B, CHR 0x0C, CHR 0x0D])"

definition hexdigit :: "char \<Rightarrow> nat option" where
  "hexdigit c =
     map_of (zip ''0123456789abcdefABCDEF''
                 [0, 1, 2, 3, 4, 5, 6, 7, 8, 9, 10, 11, 12, 13, 14, 15, 10, 11, 12, 13, 14, 15]) c"

text \<open>The digits loop of \<^verbatim>\<open>strtoul\<close>: the value read so far and the rest.\<close>

fun hex_digits :: "nat \<Rightarrow> string \<Rightarrow> nat \<times> string" where
  "hex_digits acc [] = (acc, [])"
| "hex_digits acc (c # cs) =
     (case hexdigit c of
        None \<Rightarrow> (acc, c # cs)
      | Some d \<Rightarrow> hex_digits (16 * acc + d) cs)"

text \<open>
  \<^verbatim>\<open>strtoul(c, &stop, 16)\<close> (ISO C 7.22.1.4, as glibc implements it): white space, an
  optional sign, an optional \<^verbatim>\<open>0x\<close>, hexadecimal digits. The result is the value, the
  rest of the string (\<^verbatim>\<open>stop\<close>) and whether \<^verbatim>\<open>errno\<close> was set. With no digit the value
  is 0 and \<^verbatim>\<open>stop\<close> is the whole string (or the \<^verbatim>\<open>x\<close> of a lone \<^verbatim>\<open>0x\<close>); a value above
  \<^verbatim>\<open>ULONG_MAX\<close> gives \<^verbatim>\<open>ULONG_MAX\<close> and \<^verbatim>\<open>ERANGE\<close>; a minus sign negates in
  \<^verbatim>\<open>unsigned long\<close>.
\<close>

definition strtoul16 :: "abi \<Rightarrow> string \<Rightarrow> nat \<times> string \<times> bool" where
  "strtoul16 a s =
     (let s1 = dropWhile c_isspace s;
          neg = (s1 \<noteq> [] \<and> hd s1 = CHR ''-'');
          s2 = (if s1 \<noteq> [] \<and> (hd s1 = CHR ''-'' \<or> hd s1 = CHR ''+'') then tl s1 else s1);
          pre = (2 \<le> length s2 \<and> hd s2 = CHR ''0'' \<and> c_tolower (hd (tl s2)) = CHR ''x'');
          s3 = (if pre then drop 2 s2 else s2);
          (v, rest) = hex_digits 0 s3
      in if rest = s3 then (0, if pre then tl s2 else s, False)
         else if ulong_max a < v then (ulong_max a, rest, True)
         else ((if neg then (2 ^ ulong_bits a - v) mod 2 ^ ulong_bits a else v), rest, False))"

subsection \<open>Data\<close>

text \<open>\<^verbatim>\<open>struct value\<close>.\<close>

record val =
  val_value :: u32
  val_mask :: u32

text \<open>
  \<^verbatim>\<open>struct op\<close>. The list of operations is an \<open>op list\<close> (\<^verbatim>\<open>next\<close>); \<open>dev_vector\<close> is
  the address of the device vector, compared as a pointer; \<open>values\<close> is the trailing
  array, whose length is \<^verbatim>\<open>num_values\<close>.
\<close>

record op =
  dev_vector :: nat
  cap :: u32
  addr :: u32
  width :: u32
  "values" :: "val list"

definition num_values :: "op \<Rightarrow> nat" where
  "num_values p = length (values p)"

definition max_values :: "u32 list" where
  "max_values = [0, 0xff, 0xffff, 0, 0xffffffff]"

text \<open>\<^verbatim>\<open>struct reg_name\<close> and the table \<^verbatim>\<open>pci_reg_names\<close> (without its end marker).\<close>

record reg_name =
  rn_cap :: u32
  rn_offset :: u32
  rn_width :: u32
  rn_name :: string

definition rn :: "u32 \<Rightarrow> u32 \<Rightarrow> u32 \<Rightarrow> string \<Rightarrow> reg_name" where
  "rn c o' w n = \<lparr>rn_cap = c, rn_offset = o', rn_width = w, rn_name = n\<rparr>"

definition pci_reg_names :: "reg_name list" where
  "pci_reg_names =
   [rn 0 0x00 2 ''VENDOR_ID'',
    rn 0 0x02 2 ''DEVICE_ID'',
    rn 0 0x04 2 ''COMMAND'',
    rn 0 0x06 2 ''STATUS'',
    rn 0 0x08 1 ''REVISION'',
    rn 0 0x09 1 ''CLASS_PROG'',
    rn 0 0x0a 2 ''CLASS_DEVICE'',
    rn 0 0x0c 1 ''CACHE_LINE_SIZE'',
    rn 0 0x0d 1 ''LATENCY_TIMER'',
    rn 0 0x0e 1 ''HEADER_TYPE'',
    rn 0 0x0f 1 ''BIST'',
    rn 0 0x10 4 ''BASE_ADDRESS_0'',
    rn 0 0x14 4 ''BASE_ADDRESS_1'',
    rn 0 0x18 4 ''BASE_ADDRESS_2'',
    rn 0 0x1c 4 ''BASE_ADDRESS_3'',
    rn 0 0x20 4 ''BASE_ADDRESS_4'',
    rn 0 0x24 4 ''BASE_ADDRESS_5'',
    rn 0 0x28 4 ''CARDBUS_CIS'',
    rn 0 0x2c 4 ''SUBSYSTEM_VENDOR_ID'',
    rn 0 0x2e 2 ''SUBSYSTEM_ID'',
    rn 0 0x30 4 ''ROM_ADDRESS'',
    rn 0 0x3c 1 ''INTERRUPT_LINE'',
    rn 0 0x3d 1 ''INTERRUPT_PIN'',
    rn 0 0x3e 1 ''MIN_GNT'',
    rn 0 0x3f 1 ''MAX_LAT'',
    rn 0 0x18 1 ''PRIMARY_BUS'',
    rn 0 0x19 1 ''SECONDARY_BUS'',
    rn 0 0x1a 1 ''SUBORDINATE_BUS'',
    rn 0 0x1b 1 ''SEC_LATENCY_TIMER'',
    rn 0 0x1c 1 ''IO_BASE'',
    rn 0 0x1d 1 ''IO_LIMIT'',
    rn 0 0x1e 2 ''SEC_STATUS'',
    rn 0 0x20 2 ''MEMORY_BASE'',
    rn 0 0x22 2 ''MEMORY_LIMIT'',
    rn 0 0x24 2 ''PREF_MEMORY_BASE'',
    rn 0 0x26 2 ''PREF_MEMORY_LIMIT'',
    rn 0 0x28 4 ''PREF_BASE_UPPER32'',
    rn 0 0x2c 4 ''PREF_LIMIT_UPPER32'',
    rn 0 0x30 2 ''IO_BASE_UPPER16'',
    rn 0 0x32 2 ''IO_LIMIT_UPPER16'',
    rn 0 0x38 4 ''BRIDGE_ROM_ADDRESS'',
    rn 0 0x3e 2 ''BRIDGE_CONTROL'',
    rn 0 0x10 4 ''CB_CARDBUS_BASE'',
    rn 0 0x14 2 ''CB_CAPABILITIES'',
    rn 0 0x16 2 ''CB_SEC_STATUS'',
    rn 0 0x18 1 ''CB_BUS_NUMBER'',
    rn 0 0x19 1 ''CB_CARDBUS_NUMBER'',
    rn 0 0x1a 1 ''CB_SUBORDINATE_BUS'',
    rn 0 0x1b 1 ''CB_CARDBUS_LATENCY'',
    rn 0 0x1c 4 ''CB_MEMORY_BASE_0'',
    rn 0 0x20 4 ''CB_MEMORY_LIMIT_0'',
    rn 0 0x24 4 ''CB_MEMORY_BASE_1'',
    rn 0 0x28 4 ''CB_MEMORY_LIMIT_1'',
    rn 0 0x2c 2 ''CB_IO_BASE_0'',
    rn 0 0x2e 2 ''CB_IO_BASE_0_HI'',
    rn 0 0x30 2 ''CB_IO_LIMIT_0'',
    rn 0 0x32 2 ''CB_IO_LIMIT_0_HI'',
    rn 0 0x34 2 ''CB_IO_BASE_1'',
    rn 0 0x36 2 ''CB_IO_BASE_1_HI'',
    rn 0 0x38 2 ''CB_IO_LIMIT_1'',
    rn 0 0x3a 2 ''CB_IO_LIMIT_1_HI'',
    rn 0 0x40 2 ''CB_SUBSYSTEM_VENDOR_ID'',
    rn 0 0x42 2 ''CB_SUBSYSTEM_ID'',
    rn 0 0x44 4 ''CB_LEGACY_MODE_BASE'',
    rn 0x10001 0 0 ''CAP_PM'',
    rn 0x10002 0 0 ''CAP_AGP'',
    rn 0x10003 0 0 ''CAP_VPD'',
    rn 0x10004 0 0 ''CAP_SLOTID'',
    rn 0x10005 0 0 ''CAP_MSI'',
    rn 0x10006 0 0 ''CAP_CHSWP'',
    rn 0x10007 0 0 ''CAP_PCIX'',
    rn 0x10008 0 0 ''CAP_HT'',
    rn 0x10009 0 0 ''CAP_VNDR'',
    rn 0x1000a 0 0 ''CAP_DBG'',
    rn 0x1000b 0 0 ''CAP_CCRC'',
    rn 0x1000c 0 0 ''CAP_HOTPLUG'',
    rn 0x1000d 0 0 ''CAP_SSVID'',
    rn 0x1000e 0 0 ''CAP_AGP3'',
    rn 0x1000f 0 0 ''CAP_SECURE'',
    rn 0x10010 0 0 ''CAP_EXP'',
    rn 0x10011 0 0 ''CAP_MSIX'',
    rn 0x10012 0 0 ''CAP_SATA'',
    rn 0x10013 0 0 ''CAP_AF'',
    rn 0x20001 0 0 ''ECAP_AER'',
    rn 0x20002 0 0 ''ECAP_VC'',
    rn 0x20003 0 0 ''ECAP_DSN'',
    rn 0x20004 0 0 ''ECAP_PB'',
    rn 0x20005 0 0 ''ECAP_RCLINK'',
    rn 0x20006 0 0 ''ECAP_RCILINK'',
    rn 0x20007 0 0 ''ECAP_RCECOLL'',
    rn 0x20008 0 0 ''ECAP_MFVC'',
    rn 0x2000a 0 0 ''ECAP_RBCB'',
    rn 0x2000b 0 0 ''ECAP_VNDR'',
    rn 0x2000d 0 0 ''ECAP_ACS'',
    rn 0x2000e 0 0 ''ECAP_ARI'',
    rn 0x2000f 0 0 ''ECAP_ATS'',
    rn 0x20010 0 0 ''ECAP_SRIOV'']"

text \<open>What \<^verbatim>\<open>usage\<close> and \<^verbatim>\<open>die\<close> are called with.\<close>

datatype error =
    Usage
  | Missing_value
  | Invalid_width string
  | Missing_width
  | Unknown_register string
  | Invalid_offset string
  | Register_out_of_range
  | Unaligned_register
  | Invalid_value string
  | Value_out_of_range string
  | Invalid_mask string
  | Mask_out_of_range string
  | No_operation
  | Filter_error string
  | Capability_not_found u32
  | Out_of_range
  | Null_pointer

subsection \<open>Numbers and register names\<close>

text \<open>
  \<^verbatim>\<open>parse_x32\<close> returns \<open>-1\<close> (\<open>X32_error\<close>), \<open>0\<close> with the number and the rest of the
  string (\<open>X32_partial\<close>), or \<open>1\<close> with the number (\<open>X32_full\<close>). \<^verbatim>\<open>*resp\<close> is
  assigned in the last two cases, \<^verbatim>\<open>*stopp\<close> in the second only.
\<close>

datatype x32 = X32_error | X32_partial u32 string | X32_full u32

definition parse_x32 :: "abi \<Rightarrow> string \<Rightarrow> x32" where
  "parse_x32 a c =
     (if c = [] then X32_error
      else (case strtoul16 a c of (l, stop, errno) \<Rightarrow>
        if errno then X32_error
        else if l AND 0xffffffff \<noteq> l then X32_error
        else if stop \<noteq> [] then X32_partial (of_nat l) stop
        else X32_full (of_nat l)))"

fun parse_reg_name_in :: "reg_name list \<Rightarrow> string \<Rightarrow> reg_name option" where
  "parse_reg_name_in [] name = None"
| "parse_reg_name_in (r # rs) name =
     (if strcasecmp_eq (rn_name r) name then Some r else parse_reg_name_in rs name)"

definition parse_reg_name :: "string \<Rightarrow> reg_name option" where
  "parse_reg_name name = parse_reg_name_in pci_reg_names name"

text \<open>
  \<^verbatim>\<open>parse_register\<close>. The first \<^verbatim>\<open>parse_x32\<close> stores into \<^verbatim>\<open>op->addr\<close> also when it
  returns 0, the later ones into \<^verbatim>\<open>op->cap\<close>; falling out of the chain is
  \<^verbatim>\<open>usage("Unknown register")\<close>.
\<close>

definition parse_register :: "abi \<Rightarrow> op \<Rightarrow> string \<Rightarrow> error + op" where
  "parse_register a p base =
     (case parse_x32 a base of
        X32_full n \<Rightarrow> Inr (p\<lparr>addr := n, cap := 0\<rparr>)
      | r0 \<Rightarrow>
         (let p1 = (case r0 of X32_partial n _ \<Rightarrow> p\<lparr>addr := n\<rparr> | _ \<Rightarrow> p) in
          case parse_reg_name base of
            Some r \<Rightarrow>
              Inr ((p1\<lparr>cap := rn_cap r, addr := rn_offset r\<rparr>)
                     \<lparr>width := (if rn_width r \<noteq> 0 \<and> width p1 = 0 then rn_width r else width p1)\<rparr>)
          | None \<Rightarrow>
              if strncasecmp_eq base ''CAP'' 3 then
                (case parse_x32 a (drop 3 base) of
                   X32_full c \<Rightarrow>
                     if c < 0x100 then Inr (p1\<lparr>cap := c + 0x10000, addr := 0\<rparr>)
                     else Inl (Unknown_register base)
                 | _ \<Rightarrow> Inl (Unknown_register base))
              else if strncasecmp_eq base ''ECAP'' 4 then
                (case parse_x32 a (drop 4 base) of
                   X32_full c \<Rightarrow>
                     if c < 0x1000 then Inr (p1\<lparr>cap := c + 0x20000, addr := 0\<rparr>)
                     else Inl (Unknown_register base)
                 | _ \<Rightarrow> Inl (Unknown_register base))
              else Inl (Unknown_register base)))"


subsection \<open>One register specification\<close>

text \<open>
  The test of \<^verbatim>\<open>parse_op\<close> on a value or a mask: \<^verbatim>\<open>ll > lim && ll < ~0UL - lim\<close>.
  \<^verbatim>\<open>ll\<close> and \<^verbatim>\<open>lim\<close> are \<^verbatim>\<open>unsigned int\<close>, the comparison with \<^verbatim>\<open>~0UL - lim\<close> is made
  in \<^verbatim>\<open>unsigned long\<close>, which is at least as wide, so the subtraction does not wrap.
\<close>

definition value_out_of_range :: "abi \<Rightarrow> u32 \<Rightarrow> u32 \<Rightarrow> bool" where
  "value_out_of_range a lim ll = (lim < ll \<and> unat ll < ulong_max a - unat lim)"

text \<open>
  The body of the loop over the values, after the cut at the comma. \<open>f\<close> is what the
  pointer \<^verbatim>\<open>f\<close> points to when the iteration starts: \<^verbatim>\<open>parse_x32\<close> assigns it only
  when it returns 0, so after a value that is a whole number \<^verbatim>\<open>f\<close> is what it was
  before. The result is the pair stored in \<^verbatim>\<open>op->values[j]\<close> and the new \<^verbatim>\<open>f\<close>.
\<close>

definition parse_value :: "abi \<Rightarrow> u32 \<Rightarrow> string \<Rightarrow> string \<Rightarrow> error + (val \<times> string)" where
  "parse_value a lim f v =
     (case parse_x32 a v of
        X32_error \<Rightarrow> Inl (Invalid_value v)
      | r \<Rightarrow>
         (let ll = (case r of X32_partial n _ \<Rightarrow> n | X32_full n \<Rightarrow> n | X32_error \<Rightarrow> 0);
              f1 = (case r of X32_partial _ stop \<Rightarrow> stop | _ \<Rightarrow> f) in
          if f1 \<noteq> [] \<and> hd f1 \<noteq> CHR '':'' then Inl (Invalid_value v)
          else if value_out_of_range a lim ll then Inl (Value_out_of_range v)
          else if f1 \<noteq> [] \<and> hd f1 = CHR '':'' then
            (case parse_x32 a (tl f1) of
               X32_full m \<Rightarrow>
                 if value_out_of_range a lim m then Inl (Mask_out_of_range (tl f1))
                 else Inr (\<lparr>val_value = ll AND m, val_mask = m\<rparr>, f1)
             | _ \<Rightarrow> Inl (Invalid_mask (tl f1)))
          else Inr (\<lparr>val_value = ll, val_mask = NOT 0\<rparr>, f1)))"

text \<open>
  The loop \<^verbatim>\<open>for (j=0; j<n; j++)\<close>: \<open>value\<close> is the pointer \<^verbatim>\<open>value\<close>, null (\<open>None\<close>)
  once \<^verbatim>\<open>strchr\<close> found no further comma.
\<close>

fun parse_values :: "abi \<Rightarrow> u32 \<Rightarrow> string \<Rightarrow> string option \<Rightarrow> nat \<Rightarrow> error + val list" where
  "parse_values a lim f value 0 = Inr []"
| "parse_values a lim f None (Suc j) = Inl Null_pointer"
| "parse_values a lim f (Some v) (Suc j) =
     (case strchr_cut CHR '','' v of (seg, e) \<Rightarrow>
        (case parse_value a lim f seg of
           Inl err \<Rightarrow> Inl err
         | Inr (x, f') \<Rightarrow>
             (case parse_values a lim f' e j of
                Inl err \<Rightarrow> Inl err
              | Inr xs \<Rightarrow> Inr (x # xs))))"

text \<open>\<^verbatim>\<open>n\<close>: one more than the number of commas of the value list.\<close>

definition count_values :: "string \<Rightarrow> nat" where
  "count_values v = Suc (length (filter (\<lambda>c. c = CHR '','') v))"

text \<open>\<^verbatim>\<open>*width & 0xdf\<close>: bit 5 of the character is cleared.\<close>

fun and_0xdf :: "char \<Rightarrow> char" where
  "and_0xdf (Char b0 b1 b2 b3 b4 b5 b6 b7) = Char b0 b1 b2 b3 b4 False b6 b7"

text \<open>
  The width suffix. \<^verbatim>\<open>width[1]\<close> of an empty suffix is the character after the
  terminator (the first of the values, or one past the copy of the argument): whatever
  it is, \<^verbatim>\<open>usage\<close> is called with an invalid width.
\<close>

definition parse_width :: "string option \<Rightarrow> error + u32" where
  "parse_width width_s =
     (case width_s of
        None \<Rightarrow> Inr 0
      | Some w \<Rightarrow>
          if w = [] \<or> tl w \<noteq> [] then Inl (Invalid_width w)
          else if and_0xdf (hd w) = CHR ''B'' then Inr 1
          else if and_0xdf (hd w) = CHR ''W'' then Inr 2
          else if and_0xdf (hd w) = CHR ''L'' then Inr 4
          else Inl (Invalid_width w))"

text \<open>
  \<^verbatim>\<open>parse_op\<close> from the split of the argument to the added offset: the operation with
  its \<^verbatim>\<open>cap\<close>, \<^verbatim>\<open>addr\<close> and \<^verbatim>\<open>width\<close>, the count \<^verbatim>\<open>n\<close> and the pointer
  \<^verbatim>\<open>value\<close>. \<^verbatim>\<open>xmalloc\<close> leaves \<^verbatim>\<open>op->cap\<close> and \<^verbatim>\<open>op->addr\<close> indeterminate;
  \<^verbatim>\<open>parse_register\<close> assigns both on every path that returns.
\<close>

definition parse_op_register :: "abi \<Rightarrow> string \<Rightarrow> nat \<Rightarrow> error + (op \<times> nat \<times> string option)" where
  "parse_op_register a c selected_devices =
     (case strchr_cut CHR ''='' c of (b1, value_s) \<Rightarrow>
      case strchr_cut CHR ''.'' b1 of (b2, width_s) \<Rightarrow>
      case strchr_cut CHR ''+'' b2 of (base, offset_s) \<Rightarrow>
      if value_s = Some [] then Inl Missing_value
      else
        let n = (case value_s of None \<Rightarrow> 0 | Some v \<Rightarrow> count_values v) in
        case parse_width width_s of
          Inl err \<Rightarrow> Inl err
        | Inr w \<Rightarrow>
          (case parse_register a
                  \<lparr>dev_vector = selected_devices, cap = 0, addr = 0, width = w, values = []\<rparr> base of
             Inl err \<Rightarrow> Inl err
           | Inr p1 \<Rightarrow>
               if width p1 = 0 then Inl Missing_width
               else
                 (case offset_s of
                    None \<Rightarrow> Inr (p1, n, value_s)
                  | Some off \<Rightarrow>
                      (case parse_x32 a off of
                         X32_full x \<Rightarrow>
                           if 0x1000 \<le> x then Inl (Invalid_offset off)
                           else Inr (p1\<lparr>addr := addr p1 + x\<rparr>, n, value_s)
                       | _ \<Rightarrow> Inl (Invalid_offset off)))))"

text \<open>
  \<^verbatim>\<open>parse_op\<close>, up to the appending to the list: the checks of range and alignment in
  \<^verbatim>\<open>unsigned int\<close>, then the values. \<open>f0\<close> is what the uninitialised pointer \<^verbatim>\<open>f\<close>
  points to.
\<close>

definition parse_op :: "abi \<Rightarrow> string \<Rightarrow> string \<Rightarrow> nat \<Rightarrow> error + op" where
  "parse_op a f0 c selected_devices =
     (case parse_op_register a c selected_devices of
        Inl err \<Rightarrow> Inl err
      | Inr (p, n, value_s) \<Rightarrow>
          if 0x1000 \<le> addr p \<or> 0x1000 < addr p + width p * (if n \<noteq> 0 then of_nat n else 1)
          then Inl Register_out_of_range
          else if addr p AND (width p - 1) \<noteq> 0 then Inl Unaligned_register
          else
            (case parse_values a (max_values ! unat (width p)) f0 value_s n of
               Inl err \<Rightarrow> Inl err
             | Inr vs \<Rightarrow> Inr (p\<lparr>values := vs\<rparr>)))"

subsection \<open>Filters, device vectors and the argument tail\<close>

text \<open>
  The filter functions of the PCI library, which \<^verbatim>\<open>setpci.c\<close> only calls:
  \<^verbatim>\<open>pci_filter_init\<close> gives the filter that matches every device,
  \<^verbatim>\<open>pci_filter_parse_slot\<close> and \<^verbatim>\<open>pci_filter_parse_id\<close> refine a filter and return
  an error message or null, \<^verbatim>\<open>pci_filter_match\<close> is the predicate.
\<close>

record ('f, 'd) filter_lib =
  pci_filter_init :: "'f"
  pci_filter_parse_slot :: "'f \<Rightarrow> string \<Rightarrow> string option \<times> 'f"
  pci_filter_parse_id :: "'f \<Rightarrow> string \<Rightarrow> string option \<times> 'f"
  pci_filter_match :: "'f \<Rightarrow> 'd \<Rightarrow> bool"

text \<open>The options \<^verbatim>\<open>-f\<close>, \<^verbatim>\<open>-v\<close> and \<^verbatim>\<open>-D\<close>, which \<^verbatim>\<open>parse_options\<close> counts.\<close>

record config =
  force :: nat
  verbose :: nat
  demo_mode :: nat

text \<open>
  \<^verbatim>\<open>select_devices\<close>: a first pass over \<^verbatim>\<open>pacc->devices\<close> counts the matching devices
  (from 1, for the terminator), a second one copies them. The vector is the list of the
  devices before the terminating null.
\<close>

fun count_matching :: "('d \<Rightarrow> bool) \<Rightarrow> 'd list \<Rightarrow> nat \<Rightarrow> nat" where
  "count_matching m [] cnt = cnt"
| "count_matching m (z # zs) cnt = count_matching m zs (if m z then Suc cnt else cnt)"

fun copy_matching :: "('d \<Rightarrow> bool) \<Rightarrow> 'd list \<Rightarrow> 'd list" where
  "copy_matching m [] = []"
| "copy_matching m (z # zs) = (if m z then z # copy_matching m zs else copy_matching m zs)"

definition select_devices :: "('f, 'd) filter_lib \<Rightarrow> 'd list \<Rightarrow> 'f \<Rightarrow> nat \<times> 'd list" where
  "select_devices L devices filt =
     (let cnt = count_matching (pci_filter_match L filt) devices 1;
          b = copy_matching (pci_filter_match L filt) devices
      in (cnt, b))"

text \<open>
  \<^verbatim>\<open>parse_filter\<close> on the rest of the arguments \<^verbatim>\<open>argv[i..]\<close>, which starts with the
  filter option: the result is the rest after it (the new \<^verbatim>\<open>i\<close>) and the filter.
\<close>

definition parse_filter ::
  "('f, 'd) filter_lib \<Rightarrow> string list \<Rightarrow> 'f \<Rightarrow> error + (string list \<times> 'f)" where
  "parse_filter L args filt =
     (case args of
        [] \<Rightarrow> Inl Usage
      | c # rest \<Rightarrow>
          if length c < 2 \<or> (c ! 1 \<noteq> CHR ''s'' \<and> c ! 1 \<noteq> CHR ''d'') then Inl Usage
          else
            (case (if 2 < length c
                   then Some (if c ! 2 = CHR ''='' then drop 3 c else drop 2 c, rest)
                   else (case rest of [] \<Rightarrow> None | x # rest' \<Rightarrow> Some (x, rest'))) of
               None \<Rightarrow> Inl Usage
             | Some (d, rest') \<Rightarrow>
                 if c ! 1 = CHR ''s'' then
                   (case pci_filter_parse_slot L filt d of
                      (Some msg, _) \<Rightarrow> Inl (Filter_error (''-s: '' @ msg))
                    | (None, filt') \<Rightarrow> Inr (rest', filt'))
                 else
                   (case pci_filter_parse_id L filt d of
                      (Some msg, _) \<Rightarrow> Inl (Filter_error (''-d: '' @ msg))
                    | (None, filt') \<Rightarrow> Inr (rest', filt'))))"

datatype state = STATE_INIT | STATE_GOT_FILTER | STATE_GOT_OP

text \<open>
  The variables of \<^verbatim>\<open>parse_ops\<close> and what it builds: the vectors allocated so far
  (the address of a vector is its position in \<open>ps_vectors\<close>), the list of operations
  from \<^verbatim>\<open>first_op\<close>, and the warnings written to \<^verbatim>\<open>stderr\<close>.
\<close>

record ('f, 'd) pstate =
  ps_state :: state
  ps_filter :: "'f"
  ps_selected :: "nat option"
  ps_vectors :: "'d list list"
  ps_ops :: "op list"
  ps_warnings :: "string list"


text \<open>
  One round of the loop of \<^verbatim>\<open>parse_ops\<close>, on the arguments left \<^verbatim>\<open>argv[i..]\<close>: the
  new variables and the arguments left after it. \<open>f0 k\<close> is what the uninitialised
  \<^verbatim>\<open>f\<close> of \<^verbatim>\<open>parse_op\<close> points to in the call that builds operation number \<open>k\<close>.
  \<^verbatim>\<open>selected_devices\<close> is null only in \<^verbatim>\<open>STATE_INIT\<close>. When the round dies, the result is
  the error with the warnings written to \<^verbatim>\<open>stderr\<close> before it: the warning of an
  operation is written before \<^verbatim>\<open>parse_op\<close> is called on it.
\<close>

definition parse_ops_step ::
  "abi \<Rightarrow> ('f, 'd) filter_lib \<Rightarrow> config \<Rightarrow> 'd list \<Rightarrow> (nat \<Rightarrow> string) \<Rightarrow>
   ('f, 'd) pstate \<Rightarrow> string \<Rightarrow> string list \<Rightarrow>
   (error \<times> string list) + (('f, 'd) pstate \<times> string list)" where
  "parse_ops_step a L cfg devices f0 st c rest =
     (if c \<noteq> [] \<and> hd c = CHR ''-'' then
        (case parse_filter L (c # rest)
                (if ps_state st \<noteq> STATE_GOT_FILTER then pci_filter_init L else ps_filter st) of
           Inl err \<Rightarrow> Inl (err, ps_warnings st)
         | Inr (rest', filt') \<Rightarrow>
             Inr (st\<lparr>ps_filter := filt', ps_state := STATE_GOT_FILTER\<rparr>, rest'))
      else if ps_state st = STATE_INIT then Inl (Usage, ps_warnings st)
      else
        (let st1 = (if ps_state st = STATE_GOT_FILTER
                    then st\<lparr>ps_selected := Some (length (ps_vectors st)),
                            ps_vectors := ps_vectors st
                               @ [snd (select_devices L devices (ps_filter st))]\<rparr>
                    else st) in
         case ps_selected st1 of
           None \<Rightarrow> Inl (Null_pointer, ps_warnings st1)
         | Some sel \<Rightarrow>
             (let st2 = (if ps_vectors st1 ! sel = [] \<and> force cfg = 0
                         then st1\<lparr>ps_warnings := ps_warnings st1 @ [c]\<rparr>
                         else st1) in
              case parse_op a (f0 (length (ps_ops st2))) c sel of
                Inl err \<Rightarrow> Inl (err, ps_warnings st2)
              | Inr p \<Rightarrow>
                  Inr (st2\<lparr>ps_ops := ps_ops st2 @ [p], ps_state := STATE_GOT_OP\<rparr>, rest))))"

lemma parse_filter_length:
  "parse_filter L args filt = Inr (rest, filt') \<Longrightarrow> length rest < length args"
  by (auto simp: parse_filter_def split: list.splits if_splits option.splits prod.splits)

lemma parse_ops_step_length:
  "parse_ops_step a L cfg devices f0 st c rest = Inr (st', rest') \<Longrightarrow> length rest' \<le> length rest"
  by (auto simp: parse_ops_step_def Let_def dest!: parse_filter_length
      split: if_splits sum.splits option.splits)

function parse_ops_loop ::
  "abi \<Rightarrow> ('f, 'd) filter_lib \<Rightarrow> config \<Rightarrow> 'd list \<Rightarrow> (nat \<Rightarrow> string) \<Rightarrow>
   ('f, 'd) pstate \<Rightarrow> string list \<Rightarrow> (error \<times> string list) + ('f, 'd) pstate" where
  "parse_ops_loop a L cfg devices f0 st [] = Inr st"
| "parse_ops_loop a L cfg devices f0 st (c # rest) =
     (case parse_ops_step a L cfg devices f0 st c rest of
        Inl ew \<Rightarrow> Inl ew
      | Inr (st', rest') \<Rightarrow> parse_ops_loop a L cfg devices f0 st' rest')"
  by pat_completeness auto
termination
  by (relation "measure (\<lambda>(a, L, cfg, devices, f0, st, args). length args)")
     (auto simp: less_Suc_eq_le dest: parse_ops_step_length)

text \<open>
  \<^verbatim>\<open>parse_ops\<close>: the local \<^verbatim>\<open>filter\<close> is not initialised where it is declared; the
  first filter option initialises it (the state is \<^verbatim>\<open>STATE_INIT\<close> then) before any use.
\<close>

definition parse_ops ::
  "abi \<Rightarrow> ('f, 'd) filter_lib \<Rightarrow> config \<Rightarrow> 'd list \<Rightarrow> (nat \<Rightarrow> string) \<Rightarrow>
   string list \<Rightarrow> (error \<times> string list) + ('f, 'd) pstate" where
  "parse_ops a L cfg devices f0 args =
     (case parse_ops_loop a L cfg devices f0
             \<lparr>ps_state = STATE_INIT, ps_filter = pci_filter_init L, ps_selected = None,
              ps_vectors = [], ps_ops = [], ps_warnings = []\<rparr> args of
        Inl ew \<Rightarrow> Inl ew
      | Inr st \<Rightarrow>
          if ps_state st = STATE_INIT then Inl (No_operation, ps_warnings st) else Inr st)"

subsection \<open>Execution\<close>

text \<open>
  The access functions of the PCI library over the state \<open>'h\<close> of the hardware:
  \<^verbatim>\<open>pci_find_cap\<close> gives \<^verbatim>\<open>cap->addr\<close> or null, the reads give a value of their width,
  the writes take one.
\<close>

datatype cap_type = PCI_CAP_NORMAL | PCI_CAP_EXTENDED

record ('h, 'd) access_lib =
  pci_find_cap :: "'h \<Rightarrow> 'd \<Rightarrow> u32 \<Rightarrow> cap_type \<Rightarrow> u32 option"
  pci_read_byte :: "'h \<Rightarrow> 'd \<Rightarrow> int \<Rightarrow> 8 word"
  pci_read_word :: "'h \<Rightarrow> 'd \<Rightarrow> int \<Rightarrow> 16 word"
  pci_read_long :: "'h \<Rightarrow> 'd \<Rightarrow> int \<Rightarrow> 32 word"
  pci_write_byte :: "'h \<Rightarrow> 'd \<Rightarrow> int \<Rightarrow> 8 word \<Rightarrow> 'h"
  pci_write_word :: "'h \<Rightarrow> 'd \<Rightarrow> int \<Rightarrow> 16 word \<Rightarrow> 'h"
  pci_write_long :: "'h \<Rightarrow> 'd \<Rightarrow> int \<Rightarrow> 32 word \<Rightarrow> 'h"

text \<open>
  What \<^verbatim>\<open>exec_op\<close> does that can be seen from outside, in order: the calls of the
  library and the pieces it prints (each \<^verbatim>\<open>printf\<close> with its arguments).
\<close>

datatype 'd event =
    Find_cap 'd u32 cap_type
  | Read_byte 'd int
  | Read_word 'd int
  | Read_long 'd int
  | Write_byte 'd int "8 word"
  | Write_word 'd int "16 word"
  | Write_long 'd int "32 word"
  | Print_dev 'd
  | Print_cap u32
  | Print_ecap u32
  | Print_addr int
  | Print_value "string option" u32
  | Print_masked "string option" u32 u32 u32 u32
  | Print_eq
  | Print_newline

text \<open>A run so far: what happened, the hardware, and the error that ended it if any.\<close>

type_synonym ('h, 'd) run = "'d event list \<times> 'h \<times> error option"

definition and_then :: "('h, 'd) run \<Rightarrow> ('h \<Rightarrow> ('h, 'd) run) \<Rightarrow> ('h, 'd) run" where
  "and_then r k =
     (case r of
        (es, h, Some err) \<Rightarrow> (es, h, Some err)
      | (es, h, None) \<Rightarrow> (case k h of (es', h', r') \<Rightarrow> (es @ es', h', r')))"

definition when_verbose :: "config \<Rightarrow> 'd event list \<Rightarrow> 'd event list" where
  "when_verbose cfg es = (if verbose cfg \<noteq> 0 then es else [])"

text \<open>The tables \<^verbatim>\<open>formats\<close> and \<^verbatim>\<open>mask_formats\<close> of \<^verbatim>\<open>exec_op\<close>; \<open>None\<close> is null.\<close>

definition formats :: "string option list" where
  "formats = [None, Some ''%02x'', Some ''%04x'', None, Some ''%08x'']"

definition mask_formats :: "string option list" where
  "mask_formats =
     [None, Some ''%02x->(%02x:%02x)->%02x'', Some ''%04x->(%04x:%04x)->%04x'', None,
      Some ''%08x->(%08x:%08x)->%08x'']"

text \<open>
  The two \<^verbatim>\<open>switch (width)\<close>: 1 is a byte, 2 a word, anything else a long. Each is a
  call of the library (the event), with its result (the value read, the hardware after
  the write).
\<close>

definition read_event :: "'d \<Rightarrow> int \<Rightarrow> int \<Rightarrow> 'd event" where
  "read_event dev w ad =
     (if w = 1 then Read_byte dev ad else if w = 2 then Read_word dev ad else Read_long dev ad)"

definition read_value :: "('h, 'd) access_lib \<Rightarrow> 'h \<Rightarrow> 'd \<Rightarrow> int \<Rightarrow> int \<Rightarrow> u32" where
  "read_value A h dev w ad =
     (if w = 1 then ucast (pci_read_byte A h dev ad)
      else if w = 2 then ucast (pci_read_word A h dev ad)
      else pci_read_long A h dev ad)"

definition write_event :: "'d \<Rightarrow> int \<Rightarrow> int \<Rightarrow> u32 \<Rightarrow> 'd event" where
  "write_event dev w ad x =
     (if w = 1 then Write_byte dev ad (ucast x)
      else if w = 2 then Write_word dev ad (ucast x)
      else Write_long dev ad x)"

definition write_hw :: "('h, 'd) access_lib \<Rightarrow> 'h \<Rightarrow> 'd \<Rightarrow> int \<Rightarrow> int \<Rightarrow> u32 \<Rightarrow> 'h" where
  "write_hw A h dev w ad x =
     (if w = 1 then pci_write_byte A h dev ad (ucast x)
      else if w = 2 then pci_write_word A h dev ad (ucast x)
      else pci_write_long A h dev ad x)"

text \<open>
  One round of the loop over \<^verbatim>\<open>op->values\<close>, at the address \<open>ad\<close>; the next round is
  at \<open>ad + w\<close>.
\<close>

definition exec_value ::
  "('h, 'd) access_lib \<Rightarrow> config \<Rightarrow> 'd \<Rightarrow> int \<Rightarrow> int \<Rightarrow> val \<Rightarrow> 'h \<Rightarrow> ('h, 'd) run" where
  "exec_value A cfg dev w ad v h =
     (if 0x1000 < ad + w then ([], h, Some Out_of_range)
      else
        (case (if val_mask v AND max_values ! nat w = max_values ! nat w
               then (val_value v, when_verbose cfg [Print_value (formats ! nat w) (val_value v)])
               else
                 (let y = read_value A h dev w ad;
                      x = (y AND NOT (val_mask v)) OR val_value v
                  in (x, read_event dev w ad
                         # when_verbose cfg
                             [Print_masked (mask_formats ! nat w) y (val_value v) (val_mask v) x])))
         of (x, es) \<Rightarrow>
           if demo_mode cfg = 0
           then (es @ [write_event dev w ad x], write_hw A h dev w ad x, None)
           else (es, h, None)))"

fun exec_values ::
  "('h, 'd) access_lib \<Rightarrow> config \<Rightarrow> 'd \<Rightarrow> int \<Rightarrow> int \<Rightarrow> val list \<Rightarrow> 'h \<Rightarrow> ('h, 'd) run" where
  "exec_values A cfg dev w ad [] h = ([], h, None)"
| "exec_values A cfg dev w ad (v # vs) h =
     and_then (exec_value A cfg dev w ad v h) (exec_values A cfg dev w (ad + w) vs)"

text \<open>
  The capability of \<^verbatim>\<open>exec_op\<close>: the events, and \<^verbatim>\<open>cap->addr\<close> (0 when the operation
  names no capability), or nothing when \<^verbatim>\<open>pci_find_cap\<close> returns null.
\<close>

definition find_base ::
  "('h, 'd) access_lib \<Rightarrow> config \<Rightarrow> op \<Rightarrow> 'd \<Rightarrow> 'h \<Rightarrow> 'd event list \<times> u32 option" where
  "find_base A cfg p dev h =
     (if cap p \<noteq> 0 then
        (if cap p < 0x20000
         then (when_verbose cfg [Print_cap (cap p - 0x10000)]
                 @ [Find_cap dev (cap p - 0x10000) PCI_CAP_NORMAL],
               pci_find_cap A h dev (cap p - 0x10000) PCI_CAP_NORMAL)
         else (when_verbose cfg [Print_ecap (cap p - 0x20000)]
                 @ [Find_cap dev (cap p - 0x20000) PCI_CAP_EXTENDED],
               pci_find_cap A h dev (cap p - 0x20000) PCI_CAP_EXTENDED))
      else ([], Some 0))"

text \<open>
  \<^verbatim>\<open>exec_op\<close>. \<^verbatim>\<open>addr\<close> is an \<^verbatim>\<open>int\<close>: \<^verbatim>\<open>addr = cap->addr; addr += op->addr\<close> adds
  in 32 bits and reads the sum as signed.
\<close>

definition exec_op :: "('h, 'd) access_lib \<Rightarrow> config \<Rightarrow> op \<Rightarrow> 'd \<Rightarrow> 'h \<Rightarrow> ('h, 'd) run" where
  "exec_op A cfg p dev h =
     (let w = sint (width p);
          es0 = when_verbose cfg [Print_dev dev] in
      case find_base A cfg p dev h of
        (es1, None) \<Rightarrow> (es0 @ es1, h, Some (Capability_not_found (cap p)))
      | (es1, Some b) \<Rightarrow>
          (let ad = sint (b + addr p);
               es2 = es0 @ es1 @ when_verbose cfg [Print_addr ad] in
           if num_values p \<noteq> 0 then
             and_then (and_then (es2, h, None) (exec_values A cfg dev w ad (values p)))
               (\<lambda>h'. (when_verbose cfg [Print_newline], h', None))
           else if 0x1000 < ad + w then (es2 @ when_verbose cfg [Print_eq], h, Some Out_of_range)
           else
             (es2 @ when_verbose cfg [Print_eq]
                @ [read_event dev w ad,
                   Print_value (formats ! nat w) (read_value A h dev w ad), Print_newline],
              h, None)))"

text \<open>
  \<^verbatim>\<open>execute\<close>. \<open>vec_at\<close> gives the devices of the vector at an address. The inner
  \<^verbatim>\<open>for\<close> runs \<^verbatim>\<open>exec_op\<close> on the operations from \<^verbatim>\<open>op\<close> on while their vector is
  \<^verbatim>\<open>vec\<close>; the \<^verbatim>\<open>while\<close> around it takes the devices of \<^verbatim>\<open>vec\<close> in turn; the last
  \<^verbatim>\<open>while\<close> moves \<^verbatim>\<open>op\<close> past these operations.
\<close>

fun exec_group ::
  "('h, 'd) access_lib \<Rightarrow> config \<Rightarrow> nat \<Rightarrow> op list \<Rightarrow> 'd \<Rightarrow> 'h \<Rightarrow> ('h, 'd) run" where
  "exec_group A cfg vec [] dev h = ([], h, None)"
| "exec_group A cfg vec (q # rest) dev h =
     (if dev_vector q = vec
      then and_then (exec_op A cfg q dev h) (exec_group A cfg vec rest dev)
      else ([], h, None))"

fun exec_devices ::
  "('h, 'd) access_lib \<Rightarrow> config \<Rightarrow> nat \<Rightarrow> op list \<Rightarrow> 'd list \<Rightarrow> 'h \<Rightarrow> ('h, 'd) run" where
  "exec_devices A cfg vec ops [] h = ([], h, None)"
| "exec_devices A cfg vec ops (dev # pdev) h =
     and_then (exec_group A cfg vec ops dev h) (exec_devices A cfg vec ops pdev)"

fun skip_group :: "nat \<Rightarrow> op list \<Rightarrow> op list" where
  "skip_group vec [] = []"
| "skip_group vec (p # rest) = (if dev_vector p = vec then skip_group vec rest else p # rest)"

lemma skip_group_length: "length (skip_group vec ops) \<le> length ops"
  by (induction ops) auto

function execute ::
  "('h, 'd) access_lib \<Rightarrow> config \<Rightarrow> (nat \<Rightarrow> 'd list) \<Rightarrow> op list \<Rightarrow> 'h \<Rightarrow> ('h, 'd) run" where
  "execute A cfg vec_at [] h = ([], h, None)"
| "execute A cfg vec_at (p # rest) h =
     and_then (exec_devices A cfg (dev_vector p) (p # rest) (vec_at (dev_vector p)) h)
       (execute A cfg vec_at (skip_group (dev_vector p) (p # rest)))"
  by pat_completeness auto
termination
  by (relation "measure (\<lambda>(A, cfg, vec_at, ops, h). length ops)")
     (auto simp: skip_group_length less_Suc_eq_le)

text \<open>\<^verbatim>\<open>scan_ops\<close>: \<^verbatim>\<open>pacc->writeable\<close> is set when some operation has a value.\<close>

definition scan_ops :: "op list \<Rightarrow> bool" where
  "scan_ops ops = list_ex (\<lambda>p. num_values p \<noteq> 0) ops"

text \<open>
  \<^verbatim>\<open>main\<close> after \<^verbatim>\<open>pci_scan_bus\<close>: the arguments left by \<^verbatim>\<open>parse_options\<close> are parsed,
  then the operations are executed. The result is the warnings, and the run. When the
  parser dies, the warnings are those written before the error and nothing is run.
\<close>

definition setpci_main ::
  "abi \<Rightarrow> ('f, 'd) filter_lib \<Rightarrow> ('h, 'd) access_lib \<Rightarrow> config \<Rightarrow> 'd list \<Rightarrow>
   (nat \<Rightarrow> string) \<Rightarrow> string list \<Rightarrow> 'h \<Rightarrow> string list \<times> ('h, 'd) run" where
  "setpci_main a L A cfg devices f0 args h =
     (case parse_ops a L cfg devices f0 args of
        Inl (err, ws) \<Rightarrow> (ws, [], h, Some err)
      | Inr st \<Rightarrow>
          (ps_warnings st, execute A cfg (\<lambda>k. ps_vectors st ! k) (ps_ops st) h))"


subsection \<open>The resolution of a base token, as the specification words it\<close>

text \<open>
  The capability selector of the specification and its encoding in \<^verbatim>\<open>op->cap\<close>
  (\<^verbatim>\<open>0=none, 10000-100ff=normal, 20000-2ffff=extended\<close>); \<open>selector_of_code\<close> decodes it
  the way \<^verbatim>\<open>exec_op\<close> does.
\<close>

datatype capability_selector = Sel_none | Sel_normal u32 | Sel_extended u32

fun cap_code :: "capability_selector \<Rightarrow> u32" where
  "cap_code Sel_none = 0"
| "cap_code (Sel_normal n) = n + 0x10000"
| "cap_code (Sel_extended n) = n + 0x20000"

definition selector_of_code :: "u32 \<Rightarrow> capability_selector" where
  "selector_of_code c =
     (if c = 0 then Sel_none
      else if c < 0x20000 then Sel_normal (c - 0x10000)
      else Sel_extended (c - 0x20000))"

text \<open>
  The prefix test of steps 3 and 4, read literally (\<open>begins_with\<close>) and without regard
  to case (\<open>begins_with_nocase\<close>).
\<close>

definition begins_with :: "string \<Rightarrow> string \<Rightarrow> bool" where
  "begins_with pre tok = (take (length pre) tok = pre)"

definition begins_with_nocase :: "string \<Rightarrow> string \<Rightarrow> bool" where
  "begins_with_nocase pre tok = strncasecmp_eq tok pre (length pre)"

text \<open>
  The five steps of the resolution order, first match wins; a number is what
  \<^verbatim>\<open>parse_x32\<close> consumes entirely. The result is the selector, the offset and the width.
\<close>

definition spec_resolve_base ::
  "(string \<Rightarrow> string \<Rightarrow> bool) \<Rightarrow> abi \<Rightarrow> u32 \<Rightarrow> string \<Rightarrow> error + (capability_selector \<times> u32 \<times> u32)" where
  "spec_resolve_base begins a w tok =
     (case parse_x32 a tok of
        X32_full n \<Rightarrow> Inr (Sel_none, n, w)
      | _ \<Rightarrow>
        (case parse_reg_name tok of
           Some r \<Rightarrow>
             Inr (selector_of_code (rn_cap r), rn_offset r,
                  if rn_width r \<noteq> 0 \<and> w = 0 then rn_width r else w)
         | None \<Rightarrow>
            (case (if begins ''CAP'' tok then parse_x32 a (drop 3 tok) else X32_error) of
               X32_full n \<Rightarrow>
                 if n < 0x100 then Inr (Sel_normal n, 0, w) else Inl (Unknown_register tok)
             | _ \<Rightarrow>
               (case (if begins ''ECAP'' tok then parse_x32 a (drop 4 tok) else X32_error) of
                  X32_full n \<Rightarrow>
                    if n < 0x1000 then Inr (Sel_extended n, 0, w) else Inl (Unknown_register tok)
                | _ \<Rightarrow> Inl (Unknown_register tok)))))"


text \<open>What the specification sees of the result of \<^verbatim>\<open>parse_register\<close>.\<close>

definition resolved :: "error + op \<Rightarrow> error + (capability_selector \<times> u32 \<times> u32)" where
  "resolved r =
     (case r of
        Inl err \<Rightarrow> Inl err
      | Inr p \<Rightarrow> Inr (selector_of_code (cap p), addr p, width p))"

definition is_full :: "x32 \<Rightarrow> bool" where
  "is_full r = (case r of X32_full _ \<Rightarrow> True | _ \<Rightarrow> False)"

subsection \<open>What the specification says of a register specification\<close>

text \<open>The widths of an access.\<close>

definition valid_width :: "u32 \<Rightarrow> bool" where
  "valid_width w = (w = 1 \<or> w = 2 \<or> w = 4)"

text \<open>A stored pair whose value has no bit outside its mask.\<close>

definition premasked :: "val \<Rightarrow> bool" where
  "premasked x = (val_value x AND val_mask x = val_value x)"

text \<open>
  The two windows of a value or mask literal \<open>ll\<close> at the maximum \<open>lim\<close>: at most
  \<open>lim\<close>, or at least \<^verbatim>\<open>~0UL - lim\<close>.
\<close>

definition in_window :: "abi \<Rightarrow> u32 \<Rightarrow> u32 \<Rightarrow> bool" where
  "in_window a lim ll = (unat ll \<le> unat lim \<or> ulong_max a - unat lim \<le> unat ll)"

text \<open>The range condition on the resolved offset, the width and the number of values.\<close>

definition register_out_of_range :: "op \<Rightarrow> nat \<Rightarrow> bool" where
  "register_out_of_range p n =
     (0x1000 \<le> unat (addr p) \<or> 0x1000 < unat (addr p) + unat (width p) * max 1 n)"

text \<open>The errors \<^verbatim>\<open>exec_op\<close> dies with, and the runs that end with no other error.\<close>

definition exec_error :: "error \<Rightarrow> bool" where
  "exec_error e = (case e of Out_of_range \<Rightarrow> True | Capability_not_found _ \<Rightarrow> True | _ \<Rightarrow> False)"

definition exec_errors_only :: "('h, 'd) run \<Rightarrow> bool" where
  "exec_errors_only r = (case snd (snd r) of None \<Rightarrow> True | Some e \<Rightarrow> exec_error e)"

text \<open>The entries of \<^verbatim>\<open>max_values\<close>, \<^verbatim>\<open>formats\<close> and \<^verbatim>\<open>mask_formats\<close> that are meant to be used.\<close>

definition table_index_ok :: "nat \<Rightarrow> bool" where
  "table_index_ok i =
     (i < length max_values \<and> i \<noteq> 0 \<and> i \<noteq> 3 \<and> formats ! i \<noteq> None \<and> mask_formats ! i \<noteq> None)"

subsection \<open>The order of execution, as the specification words it\<close>

text \<open>
  The maximal runs of consecutive operations with the same device vector, in the order
  of the list.
\<close>

fun groups :: "op list \<Rightarrow> op list list" where
  "groups [] = []"
| "groups (p # ps) =
     (case groups ps of
        [] \<Rightarrow> [[p]]
      | g # gs \<Rightarrow> if dev_vector p = dev_vector (hd g) then (p # g) # gs else [p] # g # gs)"

text \<open>
  The calls of \<^verbatim>\<open>exec_op\<close> in the order of the specification: the runs in list order,
  for each run the devices of its vector in vector order, for each device the operations
  of the run in list order.
\<close>

definition schedule :: "(nat \<Rightarrow> 'd list) \<Rightarrow> op list \<Rightarrow> ('d \<times> op) list" where
  "schedule vec_at ops =
     concat (map (\<lambda>g. concat (map (\<lambda>dev. map (\<lambda>p. (dev, p)) g) (vec_at (dev_vector (hd g)))))
                 (groups ops))"

text \<open>The calls made one after the other; a fatal error ends the run.\<close>

fun run_calls ::
  "('h, 'd) access_lib \<Rightarrow> config \<Rightarrow> ('d \<times> op) list \<Rightarrow> 'h \<Rightarrow> ('h, 'd) run" where
  "run_calls A cfg [] h = ([], h, None)"
| "run_calls A cfg ((dev, p) # cs) h = and_then (exec_op A cfg p dev h) (run_calls A cfg cs)"

subsection \<open>What is observed of a run\<close>

fun is_write :: "'d event \<Rightarrow> bool" where
  "is_write (Write_byte _ _ _) = True"
| "is_write (Write_word _ _ _) = True"
| "is_write (Write_long _ _ _) = True"
| "is_write _ = False"

fun is_read :: "'d event \<Rightarrow> bool" where
  "is_read (Read_byte _ _) = True"
| "is_read (Read_word _ _) = True"
| "is_read (Read_long _ _) = True"
| "is_read _ = False"

fun is_call :: "'d event \<Rightarrow> bool" where
  "is_call (Find_cap _ _ _) = True"
| "is_call e = (is_read e \<or> is_write e)"

fun access_addr :: "'d event \<Rightarrow> int option" where
  "access_addr (Read_byte _ ad) = Some ad"
| "access_addr (Read_word _ ad) = Some ad"
| "access_addr (Read_long _ ad) = Some ad"
| "access_addr (Write_byte _ ad _) = Some ad"
| "access_addr (Write_word _ ad _) = Some ad"
| "access_addr (Write_long _ ad _) = Some ad"
| "access_addr _ = None"

text \<open>The addresses of the reads and writes of a run, in order.\<close>

fun accesses :: "'d event list \<Rightarrow> int list" where
  "accesses [] = []"
| "accesses (e # es) = (case access_addr e of None \<Rightarrow> accesses es | Some x \<Rightarrow> x # accesses es)"



text \<open>A run from the hardware \<open>h\<close> that wrote nothing.\<close>

definition quiet :: "'h \<Rightarrow> ('h, 'd) run \<Rightarrow> bool" where
  "quiet h r = (list_all (\<lambda>e. \<not> is_write e) (fst r) \<and> fst (snd r) = h)"

subsection \<open>The argument tail, as the specification words it\<close>

text \<open>A token that starts with the filter marker (\<^verbatim>\<open>*c == '-'\<close>).\<close>

definition is_filter_option :: "string \<Rightarrow> bool" where
  "is_filter_option c = (c \<noteq> [] \<and> hd c = CHR ''-'')"

subsection \<open>The write of the values, as the specification words it\<close>

text \<open>A mask that, restricted to the bits of the width \<open>w\<close> (in bytes), is all ones.\<close>

definition full_mask :: "nat \<Rightarrow> val \<Rightarrow> bool" where
  "full_mask w v = (val_mask v AND mask (8 * w) = mask (8 * w))"

text \<open>
  The bits written for the pair \<open>v\<close> over the current contents \<open>old\<close>: the value when
  the mask is full, and \<open>(old AND NOT mask) OR (value AND mask)\<close> otherwise.
\<close>

definition bits_written :: "nat \<Rightarrow> u32 \<Rightarrow> val \<Rightarrow> u32" where
  "bits_written w old v =
     (if full_mask w v then val_value v
      else (old AND NOT (val_mask v)) OR (val_value v AND val_mask v))"

text \<open>
  The calls of the library for the values of a write when demo mode is inactive, and the
  hardware after them: for each value in turn, at the running address (the width further
  for each value), a read of the current contents unless the mask is full, then the write
  of the bits.
\<close>

fun write_calls ::
  "('h, 'd) access_lib \<Rightarrow> 'd \<Rightarrow> int \<Rightarrow> int \<Rightarrow> val list \<Rightarrow> 'h \<Rightarrow> 'd event list \<times> 'h" where
  "write_calls A dev w ad [] h = ([], h)"
| "write_calls A dev w ad (v # vs) h =
     (let x = bits_written (nat w) (read_value A h dev w ad) v;
          r = write_calls A dev w (ad + w) vs (write_hw A h dev w ad x)
      in ((if full_mask (nat w) v then [] else [read_event dev w ad])
            @ write_event dev w ad x # fst r,
          snd r))"

text \<open>
  What the engine does for the values of a write in either mode, and the hardware after
  it: for each value in turn, at the running address, it reads the current contents
  unless the mask is full, computes \<open>new = (old AND NOT mask) OR value\<close> (the value itself
  under a full mask), reports it when the verbose option is set, and writes it unless demo
  mode is active.
\<close>

fun intended_writes ::
  "('h, 'd) access_lib \<Rightarrow> config \<Rightarrow> 'd \<Rightarrow> int \<Rightarrow> int \<Rightarrow> val list \<Rightarrow> 'h \<Rightarrow> 'd event list \<times> 'h" where
  "intended_writes A cfg dev w ad [] h = ([], h)"
| "intended_writes A cfg dev w ad (v # vs) h =
     (let old = read_value A h dev w ad;
          new = (if full_mask (nat w) v then val_value v
                 else (old AND NOT (val_mask v)) OR val_value v);
          r = intended_writes A cfg dev w (ad + w) vs
                (if demo_mode cfg = 0 then write_hw A h dev w ad new else h)
      in ((if full_mask (nat w) v then [] else [read_event dev w ad])
            @ when_verbose cfg
                [if full_mask (nat w) v then Print_value (formats ! nat w) (val_value v)
                 else Print_masked (mask_formats ! nat w) old (val_value v) (val_mask v) new]
            @ (if demo_mode cfg = 0 then [write_event dev w ad new] else [])
            @ fst r,
          snd r))"

subsection \<open>A device for the examples\<close>

text \<open>
  A library whose configuration space is plain memory, little endian; device 0 has the
  power management capability (normal, id 1) at 0x40, the other devices have none.
\<close>

definition mem_lib :: "(nat \<Rightarrow> int \<Rightarrow> 8 word, nat) access_lib" where
  "mem_lib =
     \<lparr>pci_find_cap =
        (\<lambda>h dev i t. if dev = 0 \<and> t = PCI_CAP_NORMAL \<and> i = 1 then Some 0x40 else None),
      pci_read_byte = (\<lambda>h dev ad. h dev ad),
      pci_read_word = (\<lambda>h dev ad. word_cat (h dev (ad + 1)) (h dev ad)),
      pci_read_long =
        (\<lambda>h dev ad. word_cat (word_cat (h dev (ad + 3)) (h dev (ad + 2)) :: 16 word)
                              (word_cat (h dev (ad + 1)) (h dev ad) :: 16 word)),
      pci_write_byte = (\<lambda>h dev ad x. h(dev := (h dev)(ad := x))),
      pci_write_word =
        (\<lambda>h dev ad x. h(dev := (h dev)(ad := ucast x, ad + 1 := ucast (drop_bit 8 x)))),
      pci_write_long =
        (\<lambda>h dev ad x. h(dev := (h dev)(ad := ucast x, ad + 1 := ucast (drop_bit 8 x),
                                        ad + 2 := ucast (drop_bit 16 x),
                                        ad + 3 := ucast (drop_bit 24 x))))\<rparr>"

definition mem_a5 :: "nat \<Rightarrow> int \<Rightarrow> 8 word" where
  "mem_a5 = (\<lambda>dev ad. 0xA5)"

text \<open>
  A filter library for the examples: a filter is a slot and an identifier, each of them
  given or not; \<^verbatim>\<open>-s\<close> gives the slot and \<^verbatim>\<open>-d\<close> the identifier, keeping the other; a
  device matches when it has the slot and the identifier that are given. The devices of
  the examples are 0, 1 and 2, with the slots and identifiers below.
\<close>

definition slot_names :: "string list" where
  "slot_names = [''00:00.0'', ''00:01.0'', ''00:02.0'']"

definition id_names :: "string list" where
  "id_names = [''8086:1237'', ''8086:7000'', ''1013:00b8'']"

definition slot_id_lib :: "(string option \<times> string option, nat) filter_lib" where
  "slot_id_lib =
     \<lparr>pci_filter_init = (None, None),
      pci_filter_parse_slot = (\<lambda>(s, i) str. (None, (Some str, i))),
      pci_filter_parse_id = (\<lambda>(s, i) str. (None, (s, Some str))),
      pci_filter_match =
        (\<lambda>(s, i) d. (s = None \<or> s = Some (slot_names ! d))
                     \<and> (i = None \<or> i = Some (id_names ! d)))\<rparr>"

definition three_devices :: "nat list" where
  "three_devices = [0, 1, 2]"

definition quiet_cfg :: config where "quiet_cfg = \<lparr>force = 0, verbose = 0, demo_mode = 0\<rparr>"
definition demo_cfg :: config where "demo_cfg = \<lparr>force = 0, verbose = 0, demo_mode = 1\<rparr>"
definition demo_verbose_cfg :: config where "demo_verbose_cfg = \<lparr>force = 0, verbose = 1, demo_mode = 1\<rparr>"

definition op_04_B_02_0f :: op where
  "op_04_B_02_0f = \<lparr>dev_vector = 0, cap = 0, addr = 4, width = 1,
                     values = [\<lparr>val_value = 2, val_mask = 0x0f\<rparr>]\<rparr>"

definition op_04_B_two :: op where
  "op_04_B_two = \<lparr>dev_vector = 0, cap = 0, addr = 4, width = 1,
                   values = [\<lparr>val_value = 2, val_mask = 0x0f\<rparr>, \<lparr>val_value = 0x10, val_mask = 0xf0\<rparr>]\<rparr>"


definition opA :: op where "opA = \<lparr>dev_vector = 1, cap = 0, addr = 0, width = 2, values = []\<rparr>"
definition opB :: op where "opB = \<lparr>dev_vector = 1, cap = 0, addr = 4, width = 2, values = []\<rparr>"
definition opC :: op where "opC = \<lparr>dev_vector = 2, cap = 0, addr = 8, width = 1, values = []\<rparr>"
definition two_groups :: "nat \<Rightarrow> nat list" where
  "two_groups k = (if k = 1 then [1, 2] else if k = 2 then [3] else [])"

section \<open>Properties\<close>

subsection \<open>Evaluation on concrete arguments\<close>

lemma c_tolower_Char:
  "c_tolower (Char b0 b1 b2 b3 b4 b5 b6 b7) =
     (if b6 \<and> \<not> b5 \<and> \<not> b7 \<and> (b0 \<or> b1 \<or> b2 \<or> b3 \<or> b4) \<and> \<not> (b4 \<and> b3 \<and> (b2 \<or> (b1 \<and> b0)))
      then Char b0 b1 b2 b3 b4 True b6 b7 else Char b0 b1 b2 b3 b4 b5 b6 b7)"
  by (cases b0; cases b1; cases b2; cases b3; cases b4; cases b5; cases b6; cases b7;
      simp add: c_tolower_def)

lemma and_mask32: "((l::nat) AND 0xffffffff \<noteq> l) = (4294967296 \<le> l)"
proof -
  have "l AND mask 32 = take_bit 32 l" by (simp add: take_bit_eq_mask)
  moreover have "(mask 32 :: nat) = 0xffffffff" by (simp add: mask_eq_exp_minus_1)
  ultimately have "l AND 0xffffffff = take_bit 32 l" by simp
  then show ?thesis by (simp add: take_bit_nat_eq_self_iff not_less)
qed

lemmas x32_eval = parse_x32_def strtoul16_def hexdigit_def c_isspace_def ulong_max_def
  c_tolower_Char and_mask32

lemmas reg_eval = parse_register_def parse_reg_name_def pci_reg_names_def rn_def
  strcasecmp_eq_def strncasecmp_eq_def

lemmas op_eval = parse_op_def parse_width_def count_values_def parse_value_def
  value_out_of_range_def max_values_def

lemma parse_reg_name_cap5: "parse_reg_name ''cap5'' = None"
  by (simp add: reg_eval c_tolower_Char)

subsection \<open>Base tokens\<close>

lemma unat_add_small:
  "unat (c :: u32) < 0x1000 \<Longrightarrow> unat (k :: u32) \<le> 0x20000 \<Longrightarrow> unat (c + k) = unat c + unat k"
  by (simp add: unat_word_ariths)

lemma selector_of_code_normal: "c < 0x100 \<Longrightarrow> selector_of_code (c + 0x10000) = Sel_normal c"
proof -
  assume "c < 0x100"
  then have c: "unat c < 0x100" by (simp add: word_less_nat_alt)
  then have u: "unat (c + 0x10000) = unat c + 0x10000"
    using unat_add_small [of c "0x10000"] by simp
  have "c + 0x10000 \<noteq> 0"
  proof
    assume "c + 0x10000 = 0"
    then have "unat (c + 0x10000) = 0" by simp
    with u show False by simp
  qed
  moreover have "c + 0x10000 < 0x20000"
    using c u by (simp add: word_less_nat_alt)
  ultimately show ?thesis by (simp add: selector_of_code_def)
qed

lemma selector_of_code_extended: "c < 0x1000 \<Longrightarrow> selector_of_code (c + 0x20000) = Sel_extended c"
proof -
  assume "c < 0x1000"
  then have c: "unat c < 0x1000" by (simp add: word_less_nat_alt)
  then have u: "unat (c + 0x20000) = unat c + 0x20000"
    using unat_add_small [of c "0x20000"] by simp
  have "c + 0x20000 \<noteq> 0"
  proof
    assume "c + 0x20000 = 0"
    then have "unat (c + 0x20000) = 0" by simp
    with u show False by simp
  qed
  moreover have "\<not> c + 0x20000 < 0x20000"
    using c u by (simp add: word_less_nat_alt)
  ultimately show ?thesis by (simp add: selector_of_code_def)
qed

lemma begins_with_nocase_CAP:
  "begins_with_nocase ''CAP'' tok = strncasecmp_eq tok ''CAP'' 3"
  "begins_with_nocase ''ECAP'' tok = strncasecmp_eq tok ''ECAP'' 4"
  by (simp_all add: begins_with_nocase_def eval_nat_numeral)

lemma tolower_CE: "c_tolower CHR ''C'' \<noteq> c_tolower CHR ''E''"
  by (simp add: c_tolower_def)

lemma cap_not_ecap: "strncasecmp_eq tok ''CAP'' 3 \<Longrightarrow> \<not> strncasecmp_eq tok ''ECAP'' 4"
proof (cases tok)
  case Nil
  then show ?thesis by (simp add: strncasecmp_eq_def)
next
  case (Cons x xs)
  assume "strncasecmp_eq tok ''CAP'' 3"
  with Cons have "c_tolower x = c_tolower CHR ''C''" by (simp add: strncasecmp_eq_def)
  with tolower_CE have "c_tolower x \<noteq> c_tolower CHR ''E''" by simp
  with Cons show ?thesis by (simp add: strncasecmp_eq_def)
qed

lemma parse_register_number:
  "parse_x32 a tok = X32_full n \<Longrightarrow> parse_register a p tok = Inr (p\<lparr>addr := n, cap := 0\<rparr>)"
  by (simp add: parse_register_def)

lemma parse_register_name:
  assumes "\<not> is_full (parse_x32 a tok)" and "parse_reg_name tok = Some r"
  shows "parse_register a p tok =
           Inr (p\<lparr>cap := rn_cap r, addr := rn_offset r,
                  width := (if rn_width r \<noteq> 0 \<and> width p = 0 then rn_width r else width p)\<rparr>)"
  using assms by (cases "parse_x32 a tok") (simp_all add: parse_register_def is_full_def)

lemma parse_register_cap:
  assumes "\<not> is_full (parse_x32 a tok)" and "parse_reg_name tok = None"
    and "strncasecmp_eq tok ''CAP'' 3"
  shows "parse_register a p tok =
           (case parse_x32 a (drop 3 tok) of
              X32_full c \<Rightarrow> if c < 0x100 then Inr (p\<lparr>cap := c + 0x10000, addr := 0\<rparr>)
                            else Inl (Unknown_register tok)
            | _ \<Rightarrow> Inl (Unknown_register tok))"
  using assms
  by (cases "parse_x32 a tok"; cases "parse_x32 a (drop 3 tok)") (simp_all add: parse_register_def is_full_def)

lemma parse_register_ecap:
  assumes "\<not> is_full (parse_x32 a tok)" and "parse_reg_name tok = None"
    and "\<not> strncasecmp_eq tok ''CAP'' 3" and "strncasecmp_eq tok ''ECAP'' 4"
  shows "parse_register a p tok =
           (case parse_x32 a (drop 4 tok) of
              X32_full c \<Rightarrow> if c < 0x1000 then Inr (p\<lparr>cap := c + 0x20000, addr := 0\<rparr>)
                            else Inl (Unknown_register tok)
            | _ \<Rightarrow> Inl (Unknown_register tok))"
  using assms
  by (cases "parse_x32 a tok"; cases "parse_x32 a (drop 4 tok)") (simp_all add: parse_register_def is_full_def)

lemma parse_register_unknown:
  assumes "\<not> is_full (parse_x32 a tok)" and "parse_reg_name tok = None"
    and "\<not> strncasecmp_eq tok ''CAP'' 3" and "\<not> strncasecmp_eq tok ''ECAP'' 4"
  shows "parse_register a p tok = Inl (Unknown_register tok)"
  using assms by (cases "parse_x32 a tok") (simp_all add: parse_register_def is_full_def)

text \<open>
  C3, as amended. For every platform, operation record and base token, \<^verbatim>\<open>parse_register\<close>
  resolves the token in the order: (1) a token that \<^verbatim>\<open>parse_x32\<close> consumes entirely gives
  no capability and the number as offset; (2) a name of the table, compared without regard
  to case, gives the table's capability and offset, and the table's width when it is not
  zero and no width was given; (3) a token that begins with \<^verbatim>\<open>CAP\<close>, compared without
  regard to case, followed by a number below 0x100 gives that normal capability and offset
  0; (4) a token that begins with \<^verbatim>\<open>ECAP\<close>, compared without regard to case, followed by
  a number below 0x1000 gives that extended capability and offset 0; (5) anything else is
  an unknown register, with the token.
\<close>

theorem parse_register_resolves:
  "resolved (parse_register a p tok) = spec_resolve_base begins_with_nocase a (width p) tok"
proof (cases "\<exists>n. parse_x32 a tok = X32_full n")
  case True
  then obtain n where n: "parse_x32 a tok = X32_full n" by blast
  show ?thesis
    by (simp add: parse_register_number [OF n] n resolved_def spec_resolve_base_def selector_of_code_def)
next
  case False
  then have nofull: "\<not> is_full (parse_x32 a tok)"
    by (cases "parse_x32 a tok") (simp_all add: is_full_def)
  have spec: "spec_resolve_base begins_with_nocase a (width p) tok =
     (case parse_reg_name tok of
           Some r \<Rightarrow>
             Inr (selector_of_code (rn_cap r), rn_offset r,
                  if rn_width r \<noteq> 0 \<and> width p = 0 then rn_width r else width p)
         | None \<Rightarrow>
            (case (if strncasecmp_eq tok ''CAP'' 3 then parse_x32 a (drop 3 tok) else X32_error) of
               X32_full n \<Rightarrow>
                 if n < 0x100 then Inr (Sel_normal n, 0, width p) else Inl (Unknown_register tok)
             | _ \<Rightarrow>
               (case (if strncasecmp_eq tok ''ECAP'' 4 then parse_x32 a (drop 4 tok) else X32_error) of
                  X32_full n \<Rightarrow>
                    if n < 0x1000 then Inr (Sel_extended n, 0, width p) else Inl (Unknown_register tok)
                | _ \<Rightarrow> Inl (Unknown_register tok))))"
    using nofull by (cases "parse_x32 a tok") (simp_all add: spec_resolve_base_def begins_with_nocase_CAP is_full_def)
  show ?thesis
  proof (cases "parse_reg_name tok")
    case (Some r)
    show ?thesis
      by (simp add: parse_register_name [OF nofull Some] spec Some resolved_def)
  next
    case None
    show ?thesis
    proof (cases "strncasecmp_eq tok ''CAP'' 3")
      case True
      note necap = cap_not_ecap [OF True]
      show ?thesis
        by (cases "parse_x32 a (drop 3 tok)")
           (simp_all add: parse_register_cap [OF nofull None True] spec None True necap resolved_def
              selector_of_code_normal)
    next
      case nocap: False
      show ?thesis
      proof (cases "strncasecmp_eq tok ''ECAP'' 4")
        case True
        show ?thesis
          by (cases "parse_x32 a (drop 4 tok)")
             (simp_all add: parse_register_ecap [OF nofull None nocap True] spec None nocap True
                resolved_def selector_of_code_extended)
      next
        case False
        show ?thesis
          by (simp add: parse_register_unknown [OF nofull None nocap False] spec None nocap False
                resolved_def)
      qed
    qed
  qed
qed


text \<open>
  C3, as stated, fails: \<^verbatim>\<open>cap5\<close> does not begin with the letters \<^verbatim>\<open>CAP\<close>, so the
  resolution as stated ends in step 5, while \<^verbatim>\<open>parse_register\<close> (which tests the prefix
  with \<^verbatim>\<open>strncasecmp\<close>) gives the normal capability 5.
\<close>

theorem parse_register_prefix_case_counterexample:
  "resolved (parse_register LP64
      \<lparr>dev_vector = 0, cap = 0, addr = 0, width = 0, values = []\<rparr> ''cap5'')
     = Inr (Sel_normal 5, 0, 0)
   \<and> spec_resolve_base begins_with LP64 0 ''cap5'' = Inl (Unknown_register ''cap5'')"
  by (simp add: resolved_def parse_register_def spec_resolve_base_def begins_with_def
        parse_reg_name_cap5 strncasecmp_eq_def x32_eval selector_of_code_def)

theorem parse_register_resolves_witness:
  "resolved (parse_register ILP32
      \<lparr>dev_vector = 0, cap = 0, addr = 0, width = 0, values = []\<rparr> ''eCaP1f'')
     = Inr (Sel_extended 0x1f, 0, 0)"
proof -
  have "parse_reg_name ''eCaP1f'' = None"
    by (simp add: reg_eval c_tolower_Char)
  then have "spec_resolve_base begins_with_nocase ILP32 0 ''eCaP1f'' = Inr (Sel_extended 0x1f, 0, 0)"
    by (simp add: spec_resolve_base_def begins_with_nocase_CAP strncasecmp_eq_def x32_eval)
  then show ?thesis
    using parse_register_resolves
      [of ILP32 "\<lparr>dev_vector = 0, cap = 0, addr = 0, width = 0, values = []\<rparr>" "''eCaP1f''"]
    by simp
qed


subsection \<open>Runs\<close>

lemma and_then_simps [simp]:
  "and_then (es, h, Some err) k = (es, h, Some err)"
  "and_then (es, h, None) k = (case k h of (es', h', r') \<Rightarrow> (es @ es', h', r'))"
  by (simp_all add: and_then_def)

lemma and_then_unit [simp]: "and_then ([], h, None) k = k h"
  by (cases "k h") simp

lemma and_then_assoc:
  "and_then (and_then r k1) k2 = and_then r (\<lambda>h. and_then (k1 h) k2)"
proof (cases r)
  case (fields es h res)
  show ?thesis
  proof (cases res)
    case None
    obtain es1 h1 r1 where k1: "k1 h = (es1, h1, r1)" by (cases "k1 h") auto
    show ?thesis
    proof (cases r1)
      case None': None
      obtain es2 h2 r2 where k2: "k2 h1 = (es2, h2, r2)" by (cases "k2 h1") auto
      from fields None k1 None' k2 show ?thesis by simp
    next
      case (Some err)
      with fields None k1 show ?thesis by simp
    qed
  next
    case (Some err)
    with fields show ?thesis by simp
  qed
qed

lemma run_calls_append:
  "run_calls A cfg (xs @ ys) h = and_then (run_calls A cfg xs h) (run_calls A cfg ys)"
proof (induction xs arbitrary: h)
  case Nil
  show ?case by simp
next
  case (Cons x xs)
  obtain dev p where x: "x = (dev, p)" by (cases x)
  have "run_calls A cfg ((x # xs) @ ys) h
          = and_then (exec_op A cfg p dev h) (\<lambda>h'. run_calls A cfg (xs @ ys) h')"
    by (simp add: x)
  also have "\<dots> = and_then (exec_op A cfg p dev h)
                      (\<lambda>h'. and_then (run_calls A cfg xs h') (run_calls A cfg ys))"
    by (simp add: Cons.IH)
  also have "\<dots> = and_then (run_calls A cfg (x # xs) h) (run_calls A cfg ys)"
    by (simp add: x and_then_assoc)
  finally show ?case .
qed


lemma event_kind_simps [simp]:
  "is_write (write_event dev w ad x)" "\<not> is_write (read_event dev w ad)"
  "\<not> is_read (write_event dev w ad x)" "is_read (read_event dev w ad)"
  "is_call (write_event dev w ad x)" "is_call (read_event dev w ad)"
  "access_addr (write_event dev w ad x) = Some ad" "access_addr (read_event dev w ad) = Some ad"
  by (simp_all add: write_event_def read_event_def)

lemma when_verbose_cases: "when_verbose cfg es = es \<or> when_verbose cfg es = []"
  by (simp add: when_verbose_def)

subsection \<open>The order of execution\<close>

lemma exec_group_calls:
  "exec_group A cfg vec ops dev
     = run_calls A cfg (map (\<lambda>p. (dev, p)) (takeWhile (\<lambda>p. dev_vector p = vec) ops))"
proof (induction ops)
  case Nil
  show ?case by (rule ext) simp
next
  case (Cons q ops)
  show ?case by (rule ext) (simp add: Cons.IH)
qed

lemma exec_devices_calls:
  "exec_devices A cfg vec ops devs
     = run_calls A cfg
         (concat (map (\<lambda>dev. map (\<lambda>p. (dev, p)) (takeWhile (\<lambda>p. dev_vector p = vec) ops)) devs))"
proof (induction devs)
  case Nil
  show ?case by (rule ext) simp
next
  case (Cons dev devs)
  show ?case by (rule ext) (simp add: Cons.IH run_calls_append exec_group_calls)
qed

lemma skip_group_dropWhile: "skip_group vec ops = dropWhile (\<lambda>p. dev_vector p = vec) ops"
  by (induction ops) simp_all

lemma groups_hd_nonempty: "g \<in> set (groups ops) \<Longrightarrow> g \<noteq> []"
  by (induction ops arbitrary: g) (auto split: list.splits if_splits)

lemma groups_Cons_nonempty: "groups (p # ps) \<noteq> []"
  by (simp split: list.splits)

lemma groups_hd_vec: "groups (p # ps) = g # gs \<Longrightarrow> dev_vector (hd g) = dev_vector p"
  by (auto split: list.splits if_splits)

lemma groups_split:
  "groups (p # ps) =
     takeWhile (\<lambda>q. dev_vector q = dev_vector p) (p # ps)
       # groups (dropWhile (\<lambda>q. dev_vector q = dev_vector p) (p # ps))"
proof (induction ps arbitrary: p)
  case Nil
  show ?case by simp
next
  case (Cons q qs)
  show ?case
  proof (cases "dev_vector q = dev_vector p")
    case True
    obtain g gs where g: "groups (q # qs) = g # gs"
      using groups_Cons_nonempty [of q qs] by (cases "groups (q # qs)") auto
    have hd: "dev_vector (hd g) = dev_vector q" using groups_hd_vec [OF g] .
    from Cons.IH [of q] g True
    have g': "g = takeWhile (\<lambda>r. dev_vector r = dev_vector p) (q # qs)"
      and gs': "gs = groups (dropWhile (\<lambda>r. dev_vector r = dev_vector p) (q # qs))"
      by simp_all
    have "groups (p # q # qs) = (p # g) # gs"
      using g hd True by simp
    with g' gs' True show ?thesis by simp
  next
    case False
    obtain g gs where g: "groups (q # qs) = g # gs"
      using groups_Cons_nonempty [of q qs] by (cases "groups (q # qs)") auto
    have hd: "dev_vector (hd g) = dev_vector q" using groups_hd_vec [OF g] .
    have "groups (p # q # qs) = [p] # g # gs"
      using g hd False by simp
    with g False show ?thesis by simp
  qed
qed

lemma execute_schedule:
  "execute A cfg vec_at ops h = run_calls A cfg (schedule vec_at ops) h"
proof (induction A cfg vec_at ops h rule: execute.induct)
  case (1 A cfg vec_at h)
  show ?case by (simp add: schedule_def)
next
  case (2 A cfg vec_at p rest h)
  let ?vec = "dev_vector p"
  let ?run = "takeWhile (\<lambda>q. dev_vector q = ?vec) (p # rest)"
  let ?later = "dropWhile (\<lambda>q. dev_vector q = ?vec) (p # rest)"
  have sched: "schedule vec_at (p # rest)
      = concat (map (\<lambda>dev. map (\<lambda>q. (dev, q)) ?run) (vec_at ?vec)) @ schedule vec_at ?later"
    unfolding schedule_def by (subst groups_split) simp
  have "execute A cfg vec_at (p # rest) h
      = and_then (exec_devices A cfg ?vec (p # rest) (vec_at ?vec) h)
          (execute A cfg vec_at (skip_group ?vec (p # rest)))"
    by simp
  also have "\<dots> = and_then (exec_devices A cfg ?vec (p # rest) (vec_at ?vec) h)
          (run_calls A cfg (schedule vec_at ?later))"
  proof -
    have "execute A cfg vec_at (skip_group ?vec (p # rest))
            = run_calls A cfg (schedule vec_at ?later)"
    proof (rule ext)
      fix x
      show "execute A cfg vec_at (skip_group ?vec (p # rest)) x
              = run_calls A cfg (schedule vec_at ?later) x"
        using "2.IH" [of x] by (simp add: skip_group_dropWhile)
    qed
    then show ?thesis by simp
  qed
  also have "\<dots> = run_calls A cfg (schedule vec_at (p # rest)) h"
    by (simp only: sched run_calls_append exec_devices_calls)
  finally show ?case .
qed

text \<open>
  C2. For every list of operations and every assignment of device vectors, \<^verbatim>\<open>execute\<close>
  makes the calls of \<^verbatim>\<open>exec_op\<close> of \<open>schedule\<close>, one after the other: an outer loop over
  the maximal runs of consecutive operations with the same vector, a middle loop over the
  devices of that vector, an inner loop over the operations of the run; a fatal error ends
  the run. For [opA, opB] on the vector [1, 2] and [opC] on the vector [3] the calls are
  (1, opA), (1, opB), (2, opA), (2, opB), (3, opC).
\<close>

theorem execute_order:
  "execute A cfg vec_at ops h = run_calls A cfg (schedule vec_at ops) h"
  by (rule execute_schedule)

theorem execute_order_witness:
  "execute mem_lib quiet_cfg two_groups [opA, opB, opC] mem_a5
     = run_calls mem_lib quiet_cfg [(1, opA), (1, opB), (2, opA), (2, opB), (3, opC)] mem_a5"
proof -
  have "schedule two_groups [opA, opB, opC] = [(1, opA), (1, opB), (2, opA), (2, opB), (3, opC)]"
    by (simp add: schedule_def two_groups_def opA_def opB_def opC_def)
  then show ?thesis
    using execute_order [of mem_lib quiet_cfg two_groups "[opA, opB, opC]" mem_a5] by simp
qed

subsection \<open>Demo mode\<close>

lemma quiet_and_then: "quiet h r \<Longrightarrow> quiet h (k h) \<Longrightarrow> quiet h (and_then r k)"
  by (cases r; cases "k h"; cases "snd (snd r)") (auto simp: quiet_def)

lemma quiet_return: "list_all (\<lambda>e. \<not> is_write e) es \<Longrightarrow> quiet h (es, h, r)"
  by (simp add: quiet_def)

lemma exec_value_quiet: "demo_mode cfg \<noteq> 0 \<Longrightarrow> quiet h (exec_value A cfg dev w ad v h)"
  by (simp add: exec_value_def quiet_def when_verbose_def Let_def)

lemma exec_values_quiet: "demo_mode cfg \<noteq> 0 \<Longrightarrow> quiet h (exec_values A cfg dev w ad vs h)"
proof (induction vs arbitrary: ad)
  case Nil
  show ?case by (simp add: quiet_def)
next
  case (Cons v vs)
  show ?case
    by (simp add: quiet_and_then exec_value_quiet Cons)
qed

lemma find_base_quiet: "list_all (\<lambda>e. \<not> is_write e) (fst (find_base A cfg p dev h))"
  by (simp add: find_base_def when_verbose_def)

lemma exec_op_quiet: "demo_mode cfg \<noteq> 0 \<Longrightarrow> quiet h (exec_op A cfg p dev h)"
proof -
  assume demo: "demo_mode cfg \<noteq> 0"
  obtain es1 b where fb: "find_base A cfg p dev h = (es1, b)" by (cases "find_base A cfg p dev h")
  with find_base_quiet [of A cfg p dev h] have q1: "list_all (\<lambda>e. \<not> is_write e) es1" by simp
  show ?thesis
  proof (cases b)
    case None
    with fb q1 show ?thesis by (simp add: exec_op_def quiet_def when_verbose_def)
  next
    case (Some base)
    have pre: "quiet h (when_verbose cfg [Print_dev dev] @ es1
                 @ when_verbose cfg [Print_addr (sint (base + addr p))], h, None)"
      using q1 by (simp add: quiet_def when_verbose_def)
    have vals: "quiet h (exec_values A cfg dev (sint (width p)) (sint (base + addr p)) (values p) h)"
      by (rule exec_values_quiet [OF demo])
    have post: "quiet h (when_verbose cfg [Print_newline], h, None)"
      by (simp add: quiet_def when_verbose_def)
    show ?thesis
    proof (cases "num_values p \<noteq> 0")
      case True
      have "quiet h (and_then (and_then (when_verbose cfg [Print_dev dev] @ es1
                 @ when_verbose cfg [Print_addr (sint (base + addr p))], h, None)
               (exec_values A cfg dev (sint (width p)) (sint (base + addr p)) (values p)))
               (\<lambda>h'. (when_verbose cfg [Print_newline], h', None)))"
        by (intro quiet_and_then pre vals post)
      with fb Some True show ?thesis by (simp add: exec_op_def Let_def)
    next
      case False
      with fb Some q1 show ?thesis
        by (simp add: exec_op_def Let_def quiet_def when_verbose_def)
    qed
  qed
qed

lemma quiet_nil [simp]: "quiet h ([], h, r)"
  by (simp add: quiet_def)

lemma exec_group_quiet: "demo_mode cfg \<noteq> 0 \<Longrightarrow> quiet h (exec_group A cfg vec ops dev h)"
  by (induction ops) (simp_all add: quiet_and_then exec_op_quiet)

lemma exec_devices_quiet: "demo_mode cfg \<noteq> 0 \<Longrightarrow> quiet h (exec_devices A cfg vec ops devs h)"
  by (induction devs) (simp_all add: quiet_and_then exec_group_quiet)

lemma execute_quiet: "demo_mode cfg \<noteq> 0 \<Longrightarrow> quiet h (execute A cfg vec_at ops h)"
proof (induction A cfg vec_at ops h rule: execute.induct)
  case (1 A cfg vec_at h)
  show ?case by simp
next
  case (2 A cfg vec_at p rest h)
  show ?case
    using "2.prems" "2.IH" [OF "2.prems"]
    by (simp add: quiet_and_then exec_devices_quiet del: skip_group.simps)
qed


subsection \<open>Capabilities and the range of addresses\<close>

lemma accesses_append [simp]: "accesses (es @ es') = accesses es @ accesses es'"
  by (induction es) (simp_all split: option.splits)

lemma accesses_when_verbose [simp]:
  "accesses es = [] \<Longrightarrow> accesses (when_verbose cfg es) = []"
  by (simp add: when_verbose_def)






lemma is_call_when_verbose [simp]:
  "list_all (\<lambda>e. \<not> is_call e) es \<Longrightarrow> filter is_call (when_verbose cfg es) = []"
  by (simp add: when_verbose_def list_all_iff)




lemma exec_op_found:
  assumes "find_base A cfg p dev h = (es1, Some b)"
  shows "exec_op A cfg p dev h =
     (let w = sint (width p); ad = sint (b + addr p);
          es2 = when_verbose cfg [Print_dev dev] @ es1 @ when_verbose cfg [Print_addr ad] in
      if values p \<noteq> [] then
        and_then (and_then (es2, h, None) (exec_values A cfg dev w ad (values p)))
          (\<lambda>h'. (when_verbose cfg [Print_newline], h', None))
      else if 0x1000 < ad + w then (es2 @ when_verbose cfg [Print_eq], h, Some Out_of_range)
      else (es2 @ when_verbose cfg [Print_eq]
              @ [read_event dev w ad, Print_value (formats ! nat w) (read_value A h dev w ad),
                 Print_newline], h, None))"
  using assms by (simp add: exec_op_def Let_def num_values_def)




lemma run_calls_abort:
  "exec_op A cfg p dev h = (es, h1, Some err) \<Longrightarrow>
   run_calls A cfg ((dev, p) # calls) h = (es, h1, Some err)"
  by simp


lemmas exec_eval = exec_op_def find_base_def exec_value_def when_verbose_def num_values_def
  read_value_def read_event_def write_event_def write_hw_def max_values_def formats_def
  mask_formats_def mem_lib_def Let_def






subsection \<open>One register specification\<close>

lemma table_widths:
  "list_all (\<lambda>r. rn_width r = 0 \<or> valid_width (rn_width r)) pci_reg_names"
  by (simp add: pci_reg_names_def rn_def valid_width_def)

lemma parse_reg_name_in_mem: "parse_reg_name_in rs name = Some r \<Longrightarrow> r \<in> set rs"
  by (induction rs) (auto split: if_splits)

lemma parse_reg_name_width:
  "parse_reg_name name = Some r \<Longrightarrow> rn_width r = 0 \<or> valid_width (rn_width r)"
  using table_widths parse_reg_name_in_mem [of pci_reg_names name r]
  by (auto simp: parse_reg_name_def list_all_iff)

lemma parse_width_result:
  "parse_width ws = Inr w \<Longrightarrow> (ws = None \<and> w = 0) \<or> (ws \<noteq> None \<and> valid_width w)"
  by (auto simp: parse_width_def valid_width_def split: option.splits if_splits)

lemma parse_register_fields:
  assumes "parse_register a p base = Inr p'"
  shows "dev_vector p' = dev_vector p \<and> values p' = values p
         \<and> (width p' = width p \<or> (width p = 0 \<and> valid_width (width p')))"
proof (cases "is_full (parse_x32 a base)")
  case True
  then obtain n where "parse_x32 a base = X32_full n"
    by (cases "parse_x32 a base") (simp_all add: is_full_def)
  from assms parse_register_number [OF this, of p] show ?thesis by auto
next
  case nofull: False
  show ?thesis
  proof (cases "parse_reg_name base")
    case (Some r)
    from assms parse_register_name [OF nofull Some, of p] parse_reg_name_width [OF Some]
    show ?thesis by (auto split: if_splits)
  next
    case None
    show ?thesis
    proof (cases "strncasecmp_eq base ''CAP'' 3")
      case True
      from assms parse_register_cap [OF nofull None True, of p] show ?thesis
        by (auto split: x32.splits if_splits)
    next
      case nocap: False
      show ?thesis
      proof (cases "strncasecmp_eq base ''ECAP'' 4")
        case True
        from assms parse_register_ecap [OF nofull None nocap True, of p] show ?thesis
          by (auto split: x32.splits if_splits)
      next
        case False
        from assms parse_register_unknown [OF nofull None nocap False, of p] show ?thesis
          by simp
      qed
    qed
  qed
qed

lemma strchr_cut_length:
  "strchr_cut ch s = (b, Some v) \<Longrightarrow> length s = Suc (length b + length v)"
  by (induction s arbitrary: b) (auto split: if_splits prod.splits)

lemma count_values_le: "count_values v \<le> Suc (length v)"
  by (simp add: count_values_def)

lemma parse_op_register_result:
  assumes "parse_op_register a c sel = Inr (p, n, vs)"
  shows "valid_width (width p) \<and> dev_vector p = sel \<and> values p = []
         \<and> (case vs of None \<Rightarrow> n = 0 | Some v \<Rightarrow> v \<noteq> [] \<and> n = count_values v)
         \<and> n \<le> length c"
proof -
  obtain b1 value_s where c1: "strchr_cut CHR ''='' c = (b1, value_s)" by (cases "strchr_cut CHR ''='' c")
  obtain b2 width_s where c2: "strchr_cut CHR ''.'' b1 = (b2, width_s)" by (cases "strchr_cut CHR ''.'' b1")
  obtain base offset_s where c3: "strchr_cut CHR ''+'' b2 = (base, offset_s)" by (cases "strchr_cut CHR ''+'' b2")
  from assms c1 c2 c3 have nv: "value_s \<noteq> Some []"
    by (auto simp: parse_op_register_def split: if_splits)
  define n0 where "n0 = (case value_s of None \<Rightarrow> 0 | Some v \<Rightarrow> count_values v)"
  from assms c1 c2 c3 nv obtain w where w: "parse_width width_s = Inr w"
    by (cases "parse_width width_s") (auto simp: parse_op_register_def)
  let ?p0 = "\<lparr>dev_vector = sel, cap = 0, addr = 0, width = w, values = []\<rparr>"
  from assms c1 c2 c3 nv w obtain p1 where p1: "parse_register a ?p0 base = Inr p1"
    by (cases "parse_register a ?p0 base") (auto simp: parse_op_register_def)
  from assms c1 c2 c3 nv w p1 have w1: "width p1 \<noteq> 0"
    by (auto simp: parse_op_register_def split: if_splits)
  from assms c1 c2 c3 nv w p1 w1
  have res: "vs = value_s \<and> n = n0 \<and> width p = width p1 \<and> dev_vector p = dev_vector p1
             \<and> values p = values p1"
    by (auto simp: parse_op_register_def n0_def Let_def split: option.splits x32.splits if_splits)
  from parse_register_fields [OF p1] parse_width_result [OF w] w1
  have "valid_width (width p1)" "dev_vector p1 = sel" "values p1 = []"
    by (auto simp: valid_width_def)
  moreover have "n0 \<le> length c"
  proof (cases value_s)
    case None
    then show ?thesis by (simp add: n0_def)
  next
    case (Some v)
    with strchr_cut_length [of "CHR ''=''" c b1 v] c1 count_values_le [of v]
    show ?thesis by (simp add: n0_def)
  qed
  ultimately show ?thesis using res nv by (auto simp: n0_def split: option.splits)
qed

lemma range_sum:
  assumes a: "unat (ad :: u32) < 0x1000" and w: "unat (w :: u32) \<le> 4" and m: "m < 2 ^ 29"
  shows "unat (ad + w * of_nat m) = unat ad + unat w * m"
proof -
  have um: "unat (of_nat m :: u32) = m" using m by (simp add: unat_of_nat)
  have "unat w * m \<le> 4 * m" using w by (rule mult_le_mono1)
  moreover have "4 * m < 2 ^ 31" using m by simp
  ultimately have pm: "unat w * m < 2 ^ 31" by (rule le_less_trans)
  then have "unat w * unat (of_nat m :: u32) < 2 ^ LENGTH(32)" using um by simp
  then have up: "unat (w * of_nat m) = unat w * m"
    using um by (simp add: unat_mult_lem [THEN iffD1])
  have "unat ad + unat (w * of_nat m) < 2 ^ LENGTH(32)" using a pm up by simp
  then show ?thesis using up by (simp add: unat_add_lem [THEN iffD1])
qed

lemma and_1_mod: "((a :: u32) AND 1 = 0) = (unat a mod 2 = 0)"
proof -
  have "a AND 1 = take_bit 1 a" by (simp add: take_bit_eq_mask mask_eq_exp_minus_1)
  then have "a AND 1 = a mod 2" by (simp add: take_bit_eq_mod)
  then have "unat (a AND 1) = unat a mod 2" by (simp add: unat_mod)
  then show ?thesis by (metis unat_eq_zero)
qed

lemma and_3_mod: "((a :: u32) AND 3 = 0) = (unat a mod 4 = 0)"
proof -
  have "(3 :: u32) = mask 2" by (simp add: mask_eq_exp_minus_1)
  then have "a AND 3 = take_bit 2 a" by (simp add: take_bit_eq_mask)
  then have "a AND 3 = a mod 4" by (simp add: take_bit_eq_mod)
  then have "unat (a AND 3) = unat a mod 4" by (simp add: unat_mod)
  then show ?thesis by (metis unat_eq_zero)
qed

lemma valid_width_unat: "valid_width w \<Longrightarrow> unat w = 1 \<or> unat w = 2 \<or> unat w = 4"
  by (auto simp: valid_width_def)

lemma aligned_mod:
  "valid_width w \<Longrightarrow> (a AND (w - 1) = 0) = (unat a mod unat w = 0)"
  by (auto simp: valid_width_def and_1_mod and_3_mod)

lemma range_check:
  assumes w: "valid_width (width p)" and n: "n < 2 ^ 29"
  shows "(0x1000 \<le> addr p \<or> 0x1000 < addr p + width p * (if n \<noteq> 0 then of_nat n else 1))
           = register_out_of_range p n"
proof (cases "0x1000 \<le> addr p")
  case True
  then show ?thesis by (simp add: register_out_of_range_def word_le_nat_alt)
next
  case False
  then have a: "unat (addr p) < 0x1000" by (simp add: word_le_nat_alt)
  have w4: "unat (width p) \<le> 4" using valid_width_unat [OF w] by auto
  have m: "max 1 n < 2 ^ 29" using n by simp
  have "(if n \<noteq> 0 then of_nat n else 1) = (of_nat (max 1 n) :: u32)"
    by (cases n) (simp_all add: max_def)
  then have "unat (addr p + width p * (if n \<noteq> 0 then of_nat n else 1))
               = unat (addr p) + unat (width p) * max 1 n"
    using range_sum [OF a w4 m] by simp
  with False a show ?thesis
    by (simp add: register_out_of_range_def word_less_nat_alt)
qed

lemma parse_value_premasked:
  "parse_value a lim f v = Inr (x, f') \<Longrightarrow> premasked x"
  by (cases "parse_x32 a v")
     (auto simp: parse_value_def premasked_def Let_def and.assoc split: if_splits x32.splits)

lemma parse_values_result:
  "parse_values a lim f vs n = Inr xs \<Longrightarrow> length xs = n \<and> list_all premasked xs"
proof (induction a lim f vs n arbitrary: xs rule: parse_values.induct)
  case (1 a lim f "value")
  then show ?case by simp
next
  case (2 a lim f j)
  then show ?case by simp
next
  case (3 a lim f v j)
  obtain seg e where cut: "strchr_cut CHR '','' v = (seg, e)" by (cases "strchr_cut CHR '','' v")
  from "3.prems" cut obtain x f' where pv: "parse_value a lim f seg = Inr (x, f')"
    by (cases "parse_value a lim f seg") auto
  from "3.prems" cut pv obtain ys where ys: "parse_values a lim f' e j = Inr ys" and xs: "xs = x # ys"
    by (cases "parse_values a lim f' e j") auto
  from "3.IH" [OF cut [symmetric] pv refl ys] parse_value_premasked [OF pv] xs
  show ?case by simp
qed

lemma parse_op_result:
  assumes "parse_op a f0 c sel = Inr q"
  obtains p n vs xs where "parse_op_register a c sel = Inr (p, n, vs)"
    and "q = p\<lparr>values := xs\<rparr>" and "length xs = n" and "list_all premasked xs"
    and "\<not> (0x1000 \<le> addr p \<or> 0x1000 < addr p + width p * (if n \<noteq> 0 then of_nat n else 1))"
    and "addr p AND (width p - 1) = 0"
proof -
  from assms obtain p n vs where reg: "parse_op_register a c sel = Inr (p, n, vs)"
    by (cases "parse_op_register a c sel") (auto simp: parse_op_def)
  from assms reg
  have r: "\<not> (0x1000 \<le> addr p \<or> 0x1000 < addr p + width p * (if n \<noteq> 0 then of_nat n else 1))"
    and al: "addr p AND (width p - 1) = 0"
    by (auto simp: parse_op_def split: if_splits)
  from assms reg r al obtain xs
    where xs: "parse_values a (max_values ! unat (width p)) f0 vs n = Inr xs" and q: "q = p\<lparr>values := xs\<rparr>"
    by (cases "parse_values a (max_values ! unat (width p)) f0 vs n") (auto simp: parse_op_def)
  from parse_values_result [OF xs] reg q r al that show thesis by blast
qed

lemma exec_errors_only_and_then:
  "exec_errors_only r \<Longrightarrow> (\<And>h. exec_errors_only (k h)) \<Longrightarrow> exec_errors_only (and_then r k)"
proof -
  assume r: "exec_errors_only r" and k: "\<And>h. exec_errors_only (k h)"
  obtain es h res where rr: "r = (es, h, res)" by (cases r)
  show ?thesis
  proof (cases res)
    case None
    obtain es' h' r' where kk: "k h = (es', h', r')" by (cases "k h")
    with k [of h] rr None show ?thesis by (simp add: exec_errors_only_def)
  next
    case (Some e)
    with r rr show ?thesis by (simp add: exec_errors_only_def)
  qed
qed

lemma exec_errors_only_ok [simp]: "exec_errors_only (es, h, None)"
  by (simp add: exec_errors_only_def)

lemma exec_value_errors: "exec_errors_only (exec_value A cfg dev w ad v h)"
  by (simp add: exec_value_def exec_errors_only_def exec_error_def Let_def)

lemma exec_values_errors: "exec_errors_only (exec_values A cfg dev w ad vs h)"
  by (induction vs arbitrary: ad h) (simp_all add: exec_errors_only_and_then exec_value_errors)

lemma exec_op_errors: "exec_errors_only (exec_op A cfg p dev h)"
proof -
  obtain es1 b where fb: "find_base A cfg p dev h = (es1, b)" by (cases "find_base A cfg p dev h")
  show ?thesis
  proof (cases b)
    case None
    with fb show ?thesis by (simp add: exec_op_def exec_errors_only_def exec_error_def)
  next
    case (Some base)
    have "exec_errors_only
            (and_then (and_then (es2, h, None) (exec_values A cfg dev w ad (values p))) k)"
      if "\<And>h'. exec_errors_only (k h')" for es2 w ad k
      by (intro exec_errors_only_and_then exec_values_errors exec_errors_only_ok that)
    then show ?thesis
      using fb Some
      by (simp add: exec_op_found Let_def exec_errors_only_def [of "(x, y, Some z)" for x y z]
            exec_error_def del: and_then_simps)
  qed
qed

lemma exec_group_errors: "exec_errors_only (exec_group A cfg vec ops dev h)"
  by (induction ops arbitrary: h) (simp_all add: exec_errors_only_and_then exec_op_errors)

lemma exec_devices_errors: "exec_errors_only (exec_devices A cfg vec ops devs h)"
  by (induction devs arbitrary: h) (simp_all add: exec_errors_only_and_then exec_group_errors)

lemma execute_errors: "exec_errors_only (execute A cfg vec_at ops h)"
proof (induction A cfg vec_at ops h rule: execute.induct)
  case (1 A cfg vec_at h)
  show ?case by simp
next
  case (2 A cfg vec_at p rest h)
  show ?case
    using "2.IH" by (simp add: exec_errors_only_and_then exec_devices_errors del: skip_group.simps)
qed

lemma main_parse_error:
  assumes "setpci_main a L A cfg devices f0 args h = (ws, es, h', Some err)" and "\<not> exec_error err"
  shows "parse_ops a L cfg devices f0 args = Inl (err, ws) \<and> es = [] \<and> h' = h"
proof (cases "parse_ops a L cfg devices f0 args")
  case (Inl e)
  with assms show ?thesis by (cases e) (simp add: setpci_main_def)
next
  case (Inr st)
  with assms execute_errors [of A cfg "\<lambda>k. ps_vectors st ! k" "ps_ops st" h]
  show ?thesis by (simp add: setpci_main_def exec_errors_only_def)
qed

lemma parse_value_errors:
  "parse_value a lim f v = Inl e \<Longrightarrow> e \<noteq> Register_out_of_range \<and> e \<noteq> Unaligned_register"
  by (cases "parse_x32 a v")
     (auto simp: parse_value_def Let_def split: if_splits x32.splits)

lemma parse_values_errors:
  "parse_values a lim f vs n = Inl e \<Longrightarrow> e \<noteq> Register_out_of_range \<and> e \<noteq> Unaligned_register"
proof (induction a lim f vs n rule: parse_values.induct)
  case (1 a lim f "value")
  then show ?case by simp
next
  case (2 a lim f j)
  then show ?case by auto
next
  case (3 a lim f v j)
  obtain seg e' where cut: "strchr_cut CHR '','' v = (seg, e')" by (cases "strchr_cut CHR '','' v")
  show ?case
  proof (cases "parse_value a lim f seg")
    case (Inl err)
    with "3.prems" cut parse_value_errors [OF Inl] show ?thesis by simp
  next
    case (Inr r)
    obtain x f' where r: "r = (x, f')" by (cases r)
    from "3.prems" cut Inr r have "parse_values a lim f' e' j = Inl e"
      by (cases "parse_values a lim f' e' j") auto
    from "3.IH" [OF cut [symmetric] Inr [unfolded r] refl this] show ?thesis .
  qed
qed

lemmas op_eval' = parse_op_register_def op_eval

lemma reg_fff_W:
  "parse_op_register LP64 ''fff.W'' 0
     = Inr (\<lparr>dev_vector = 0, cap = 0, addr = 0xfff, width = 2, values = []\<rparr>, 0, None)"
  by (simp add: op_eval' parse_register_def x32_eval)

lemma reg_05_W:
  "parse_op_register LP64 ''05.W'' 0
     = Inr (\<lparr>dev_vector = 0, cap = 0, addr = 5, width = 2, values = []\<rparr>, 0, None)"
  by (simp add: op_eval' parse_register_def x32_eval)

text \<open>
  C4, as amended. For every register specification of fewer than \<open>2 ^ 29\<close> characters
  that resolves to an offset, a width and \<open>n\<close> values: \<^verbatim>\<open>parse_op\<close> fails as out of range
  exactly when the offset is at least 0x1000 or the offset plus the width times
  \<open>max 1 n\<close> exceeds 0x1000; it fails as unaligned exactly when it is in range and the
  offset is not a multiple of the width (the range is checked first); every accepted
  specification is in range and aligned. A run of the program that ends with one of these
  two errors has made no call of the library and left the hardware as it was.
\<close>

theorem range_and_alignment_checks:
  "(parse_op_register a c sel = Inr (p, n, vs) \<and> length c < 2 ^ 29 \<longrightarrow>
      (parse_op a fp c sel = Inl Register_out_of_range) = register_out_of_range p n
      \<and> (parse_op a fp c sel = Inl Unaligned_register)
           = (\<not> register_out_of_range p n \<and> unat (addr p) mod unat (width p) \<noteq> 0)
      \<and> (\<forall>q. parse_op a fp c sel = Inr q \<longrightarrow>
             addr q = addr p \<and> width q = width p \<and> num_values q = n
             \<and> unat (addr q) + unat (width q) * max 1 (num_values q) \<le> 0x1000
             \<and> unat (addr q) mod unat (width q) = 0))
   \<and> (setpci_main a L A cfg devices fq args h = (ws, es, h', Some err)
        \<and> (err = Register_out_of_range \<or> err = Unaligned_register) \<longrightarrow>
      es = [] \<and> h' = h)"
proof (intro conjI impI allI)
  assume a: "parse_op_register a c sel = Inr (p, n, vs) \<and> length c < 2 ^ 29"
  then have reg: "parse_op_register a c sel = Inr (p, n, vs)" and len: "length c < 2 ^ 29" by simp_all
  from parse_op_register_result [OF reg] have w: "valid_width (width p)" and nle: "n \<le> length c"
    by simp_all
  from nle len have n: "n < 2 ^ 29" by simp
  note rc = range_check [OF w n]
  note al = aligned_mod [OF w, of "addr p"]
  show "(parse_op a fp c sel = Inl Register_out_of_range) = register_out_of_range p n"
    using rc parse_values_errors [of a "max_values ! unat (width p)" fp vs n]
    by (auto simp: parse_op_def reg split: sum.splits)
  show "(parse_op a fp c sel = Inl Unaligned_register)
           = (\<not> register_out_of_range p n \<and> unat (addr p) mod unat (width p) \<noteq> 0)"
    using rc al parse_values_errors [of a "max_values ! unat (width p)" fp vs n]
    by (auto simp: parse_op_def reg split: sum.splits)
  fix q assume q: "parse_op a fp c sel = Inr q"
  from q obtain p' n' vs' xs where reg': "parse_op_register a c sel = Inr (p', n', vs')"
    and qq': "q = p'\<lparr>values := xs\<rparr>" and lx': "length xs = n'"
    and r': "\<not> (0x1000 \<le> addr p' \<or> 0x1000 < addr p' + width p' * (if n' \<noteq> 0 then of_nat n' else 1))"
    and z': "addr p' AND (width p' - 1) = 0"
    by (rule parse_op_result)
  from reg reg' have same: "p' = p" "n' = n" by simp_all
  note qq = qq' [unfolded same] and lx = lx' [unfolded same] and r = r' [unfolded same]
    and z = z' [unfolded same]
  show "addr q = addr p" "width q = width p" "num_values q = n"
    using qq lx by (simp_all add: num_values_def)
  show "unat (addr q) + unat (width q) * max 1 (num_values q) \<le> 0x1000"
    using r rc qq lx by (simp add: register_out_of_range_def num_values_def)
  show "unat (addr q) mod unat (width q) = 0"
    using z al qq by simp
next
  assume a: "setpci_main a L A cfg devices fq args h = (ws, es, h', Some err)
        \<and> (err = Register_out_of_range \<or> err = Unaligned_register)"
  then have "\<not> exec_error err" by (auto simp: exec_error_def)
  with a main_parse_error [of a L A cfg devices fq args h ws es h' err]
  show "es = []" "h' = h" by simp_all
qed

text \<open>
  C4, as stated, fails: for \<^verbatim>\<open>fff.W\<close> the offset 0xfff is not a multiple of the width
  2, and the error is the one of the range, not the one of the alignment.
\<close>

theorem unaligned_iff_counterexample:
  "parse_op_register LP64 ''fff.W'' 0
     = Inr (\<lparr>dev_vector = 0, cap = 0, addr = 0xfff, width = 2, values = []\<rparr>, 0, None)
   \<and> unat (0xfff :: u32) mod unat (2 :: u32) = 1
   \<and> parse_op LP64 [] ''fff.W'' 0 = Inl Register_out_of_range"
  by (simp add: reg_fff_W parse_op_def)

theorem range_and_alignment_checks_witness:
  "parse_op LP64 [] ''05.W'' 0 = Inl Unaligned_register
   \<and> parse_op LP64 [] ''fff.W'' 0 = Inl Register_out_of_range"
proof -
  note checks = range_and_alignment_checks [THEN conjunct1, THEN mp, OF conjI]
  have "(parse_op LP64 [] ''05.W'' 0 = Inl Unaligned_register)
          = (\<not> register_out_of_range \<lparr>dev_vector = 0, cap = 0, addr = 5, width = 2, values = []\<rparr> 0
             \<and> unat (5 :: u32) mod unat (2 :: u32) \<noteq> 0)"
    using checks [OF reg_05_W, of "[]"] by simp
  moreover have "(parse_op LP64 [] ''fff.W'' 0 = Inl Register_out_of_range)
          = register_out_of_range \<lparr>dev_vector = 0, cap = 0, addr = 0xfff, width = 2, values = []\<rparr> 0"
    using checks [OF reg_fff_W, of "[]"] by simp
  ultimately show ?thesis by (simp add: register_out_of_range_def)
qed

lemma value_out_of_range_window: "value_out_of_range a lim ll = (\<not> in_window a lim ll)"
  by (auto simp: value_out_of_range_def in_window_def word_less_nat_alt)

lemma in_window_LP64: "in_window LP64 lim ll = (ll \<le> lim)"
proof -
  have "unat ll < 2 ^ 32" "unat lim < 2 ^ 32"
    using unsigned_less [of ll, where 'a = nat] unsigned_less [of lim, where 'a = nat] by simp_all
  then show ?thesis
    by (auto simp: in_window_def ulong_max_def word_le_nat_alt)
qed

text \<open>
  C6. \<^verbatim>\<open>parse_x32\<close> stores the end of the number through its second argument only
  when something follows the number, and \<^verbatim>\<open>parse_op\<close> reads \<^verbatim>\<open>*f\<close> after every call. For
  the whole number \<^verbatim>\<open>0006\<close> of \<^verbatim>\<open>COMMAND=0006\<close>, which is in the window of the width,
  \<^verbatim>\<open>f\<close> is what the uninitialised pointer holds: the value is refused as invalid when
  it points at a character other than a colon or the end of a string, and accepted when
  it points at the end of one. In \<^verbatim>\<open>04.B=1:2,3\<close> the pointer is left by the value
  before, and the value 3 is stored with the mask 2 of that value. The error for a value
  out of range names the value together with its mask.
\<close>

theorem uninitialised_stop_pointer:
  "parse_x32 LP64 ''0006'' = X32_full 6
   \<and> in_window LP64 (max_values ! 2) 6
   \<and> parse_op LP64 ''x'' ''COMMAND=0006'' 0 = Inl (Invalid_value ''0006'')
   \<and> parse_op LP64 [] ''COMMAND=0006'' 0
       = Inr \<lparr>dev_vector = 0, cap = 0, addr = 4, width = 2,
              values = [\<lparr>val_value = 6, val_mask = 0xffffffff\<rparr>]\<rparr>
   \<and> parse_op LP64 [] ''04.B=1:2,3'' 0
       = Inr \<lparr>dev_vector = 0, cap = 0, addr = 4, width = 1,
              values = [\<lparr>val_value = 0, val_mask = 2\<rparr>, \<lparr>val_value = 2, val_mask = 2\<rparr>]\<rparr>
   \<and> parse_op LP64 [] ''04.B=1ff:0f'' 0 = Inl (Value_out_of_range ''1ff:0f'')"
  by (simp add: op_eval' reg_eval x32_eval in_window_def max_values_def)

lemma valid_width_sint: "valid_width w \<Longrightarrow> nat (sint w) = unat w \<and> 0 < sint w"
  by (auto simp: valid_width_def)

lemma valid_width_index: "valid_width w \<Longrightarrow> table_index_ok (nat (sint w))"
  by (auto simp: valid_width_def table_index_ok_def max_values_def formats_def mask_formats_def)

lemma parse_op_width: "parse_op a fp c sel = Inr p \<Longrightarrow> valid_width (width p)"
proof -
  assume "parse_op a fp c sel = Inr p"
  then obtain p' n vs xs where "parse_op_register a c sel = Inr (p', n, vs)" "p = p'\<lparr>values := xs\<rparr>"
    by (rule parse_op_result)
  with parse_op_register_result [of a c sel p' n vs] show ?thesis by simp
qed

lemma parse_op_premasked: "parse_op a fp c sel = Inr p \<Longrightarrow> list_all premasked (values p)"
proof -
  assume "parse_op a fp c sel = Inr p"
  then obtain p' n vs xs where "p = p'\<lparr>values := xs\<rparr>" "list_all premasked xs"
    by (rule parse_op_result)
  then show ?thesis by simp
qed

lemma op_04_B_02_0f_parsed: "parse_op LP64 [] ''04.B=02:0f'' 0 = Inr op_04_B_02_0f"
  by (simp add: op_eval' parse_register_def x32_eval op_04_B_02_0f_def)

subsection \<open>The values of a write\<close>

lemma max_values_mask: "valid_width w \<Longrightarrow> max_values ! nat (sint w) = mask (8 * nat (sint w))"
  by (auto simp: valid_width_def max_values_def mask_eq_exp_minus_1)

lemma full_mask_max_values:
  "valid_width w \<Longrightarrow>
   (val_mask v AND max_values ! nat (sint w) = max_values ! nat (sint w)) = full_mask (nat (sint w)) v"
  by (simp add: full_mask_def max_values_mask)

lemma exec_values_intended:
  assumes w: "0 < w" and fm: "\<And>v. (val_mask v AND max_values ! nat w = max_values ! nat w) = full_mask (nat w) v"
  shows "ad + w * int (length vs) \<le> 0x1000 \<Longrightarrow>
         exec_values A cfg dev w ad vs h
           = (fst (intended_writes A cfg dev w ad vs h), snd (intended_writes A cfg dev w ad vs h), None)"
proof (induction vs arbitrary: ad h)
  case Nil
  show ?case by simp
next
  case (Cons v vs)
  have "w \<le> w * (1 + int (length vs))" using w by simp
  with Cons.prems have r1: "\<not> 0x1000 < ad + w" by simp
  from Cons.prems have r2: "ad + w + w * int (length vs) \<le> 0x1000" by (simp add: algebra_simps)
  note ih = Cons.IH [OF r2]
  show ?case
    using r1 by (simp add: exec_value_def fm Let_def ih)
qed

lemma exec_op_intended:
  assumes vw: "valid_width (width p)" and ne: "values p \<noteq> []"
    and fb: "find_base A cfg p dev h = (es1, Some b)"
    and r: "sint (b + addr p) + sint (width p) * int (num_values p) \<le> 0x1000"
  shows "exec_op A cfg p dev h =
          (when_verbose cfg [Print_dev dev] @ es1 @ when_verbose cfg [Print_addr (sint (b + addr p))]
             @ fst (intended_writes A cfg dev (sint (width p)) (sint (b + addr p)) (values p) h)
             @ when_verbose cfg [Print_newline],
           snd (intended_writes A cfg dev (sint (width p)) (sint (b + addr p)) (values p) h), None)"
proof -
  from valid_width_sint [OF vw] have w: "0 < sint (width p)" by simp
  from r have r': "sint (b + addr p) + sint (width p) * int (length (values p)) \<le> 0x1000"
    by (simp add: num_values_def)
  show ?thesis
    using ne
    by (simp add: exec_op_found [OF fb] Let_def
        exec_values_intended [OF w full_mask_max_values [OF vw] r'])
qed

lemma intended_write_calls:
  "demo_mode cfg = 0 \<Longrightarrow> list_all premasked vs \<Longrightarrow>
   filter is_call (fst (intended_writes A cfg dev w ad vs h)) = fst (write_calls A dev w ad vs h)
   \<and> snd (intended_writes A cfg dev w ad vs h) = snd (write_calls A dev w ad vs h)"
proof (induction vs arbitrary: ad h)
  case Nil
  show ?case by simp
next
  case (Cons v vs)
  from Cons.prems have pm: "val_value v AND val_mask v = val_value v"
    by (simp add: premasked_def)
  from Cons.prems have pms: "list_all premasked vs" by simp
  note ih = Cons.IH [OF Cons.prems(1) pms]
  show ?case
    using Cons.prems(1)
    by (simp add: Let_def bits_written_def pm ih when_verbose_def)
qed

lemma write_calls_full:
  "list_all (full_mask (nat w)) vs \<Longrightarrow>
   fst (write_calls A dev w ad vs h)
     = map (\<lambda>k. write_event dev w (ad + int k * w) (val_value (vs ! k))) [0..<length vs]"
proof (induction vs arbitrary: ad h)
  case Nil
  show ?case by simp
next
  case (Cons v vs)
  from Cons.prems have f: "full_mask (nat w) v" and fs: "list_all (full_mask (nat w)) vs" by simp_all
  have "[0..<length (v # vs)] = 0 # map Suc [0..<length vs]"
    by (simp add: upt_conv_Cons map_Suc_upt del: upt_Suc)
  then show ?case
    using f by (simp add: Let_def bits_written_def Cons.IH [OF fs] comp_def algebra_simps del: upt_Suc)
qed

lemma intended_write_addresses:
  "demo_mode cfg = 0 \<Longrightarrow>
   accesses (filter is_write (fst (intended_writes A cfg dev w ad vs h)))
     = map (\<lambda>k. ad + int k * w) [0..<length vs]"
proof (induction vs arbitrary: ad h)
  case Nil
  show ?case by simp
next
  case (Cons v vs)
  have "[0..<length (v # vs)] = 0 # map Suc [0..<length vs]"
    by (simp add: upt_conv_Cons map_Suc_upt del: upt_Suc)
  then show ?case
    using Cons.prems
    by (simp add: Let_def Cons.IH [OF Cons.prems] comp_def algebra_simps when_verbose_def del: upt_Suc)
qed

lemma execute_at:
  assumes "schedule vec_at ops = pre @ (dev, p) # post"
    and "run_calls A cfg pre h0 = (es0, h, None)"
    and "exec_op A cfg p dev h = (es, h1, None)"
  shows "execute A cfg vec_at ops h0 = and_then (es0 @ es, h1, None) (run_calls A cfg post)"
proof -
  obtain es2 h2 r2 where k: "run_calls A cfg post h1 = (es2, h2, r2)"
    by (cases "run_calls A cfg post h1") auto
  with assms show ?thesis by (simp add: execute_schedule run_calls_append)
qed

lemma op_04_B_two_parsed: "parse_op a fp ''04.B=02:0f,10:f0'' 0 = Inr op_04_B_two"
  by (cases a) (simp_all add: op_eval' parse_register_def x32_eval op_04_B_two_def)

lemma schedule_single: "schedule (\<lambda>k. [dev]) [p] = [(dev, p)]"
  by (simp add: schedule_def)

text \<open>
  C1. For every operation with values that \<^verbatim>\<open>parse_op\<close> accepts, called by \<^verbatim>\<open>execute\<close>
  on a device when demo mode is inactive, its capability found and its accesses in range:
  the stored values have no bit outside their masks; the calls of \<^verbatim>\<open>exec_op\<close> are the one
  of the capability, then for each value in turn, at the running address, the read of the
  current contents \<open>old\<close> unless the mask restricted to the width is all ones, and the
  write of the stored value (full mask) or of \<open>(old AND NOT mask) OR (value AND mask)\<close>;
  the hardware after \<^verbatim>\<open>exec_op\<close> is the hardware after these writes, and \<^verbatim>\<open>execute\<close> goes
  on from it; on the stored pairs these bits are those the source computes,
  \<open>(old AND NOT mask) OR value\<close>; when every mask is full the calls are the writes of the
  stored values at the running addresses and nothing is read.
\<close>

theorem masked_write:
  "parse_op a fp c sel = Inr p \<and> values p \<noteq> [] \<and> demo_mode cfg = 0
     \<and> find_base A cfg p dev h = (es1, Some b)
     \<and> sint (b + addr p) + sint (width p) * int (num_values p) \<le> 0x1000
     \<and> schedule vec_at ops = pre @ (dev, p) # post
     \<and> run_calls A cfg pre h0 = (es0, h, None) \<longrightarrow>
   list_all premasked (values p)
   \<and> filter is_call (fst (exec_op A cfg p dev h))
       = filter is_call es1
         @ fst (write_calls A dev (sint (width p)) (sint (b + addr p)) (values p) h)
   \<and> snd (exec_op A cfg p dev h)
       = (snd (write_calls A dev (sint (width p)) (sint (b + addr p)) (values p) h), None)
   \<and> execute A cfg vec_at ops h0
       = and_then
           (es0 @ fst (exec_op A cfg p dev h),
            snd (write_calls A dev (sint (width p)) (sint (b + addr p)) (values p) h), None)
           (run_calls A cfg post)
   \<and> (\<forall>v \<in> set (values p). \<forall>old.
         bits_written (nat (sint (width p))) old v
           = (if val_mask v AND max_values ! unat (width p) = max_values ! unat (width p)
              then val_value v else (old AND NOT (val_mask v)) OR val_value v))
   \<and> (list_all (full_mask (nat (sint (width p)))) (values p) \<longrightarrow>
        filter is_call (fst (exec_op A cfg p dev h))
          = filter is_call es1
            @ map (\<lambda>k. write_event dev (sint (width p))
                         (sint (b + addr p) + int k * sint (width p)) (val_value (values p ! k)))
                [0..<num_values p])"
proof (intro impI)
  let ?w = "sint (width p)" and ?ad = "sint (b + addr p)"
  assume a: "parse_op a fp c sel = Inr p \<and> values p \<noteq> [] \<and> demo_mode cfg = 0
     \<and> find_base A cfg p dev h = (es1, Some b)
     \<and> sint (b + addr p) + sint (width p) * int (num_values p) \<le> 0x1000
     \<and> schedule vec_at ops = pre @ (dev, p) # post
     \<and> run_calls A cfg pre h0 = (es0, h, None)"
  then have po: "parse_op a fp c sel = Inr p" and ne: "values p \<noteq> []" and d: "demo_mode cfg = 0"
    and fb: "find_base A cfg p dev h = (es1, Some b)"
    and r: "?ad + ?w * int (num_values p) \<le> 0x1000"
    and sch: "schedule vec_at ops = pre @ (dev, p) # post"
    and rc: "run_calls A cfg pre h0 = (es0, h, None)"
    by simp_all
  note vw = parse_op_width [OF po]
  note pm = parse_op_premasked [OF po]
  from valid_width_sint [OF vw] have ix: "nat ?w = unat (width p)" by simp
  note eo = exec_op_intended [OF vw ne fb r]
  note wc = intended_write_calls [OF d pm, of A dev ?w ?ad h]
  have calls: "filter is_call (fst (exec_op A cfg p dev h))
       = filter is_call es1 @ fst (write_calls A dev ?w ?ad (values p) h)"
    by (simp add: eo wc when_verbose_def)
  have res: "snd (exec_op A cfg p dev h) = (snd (write_calls A dev ?w ?ad (values p) h), None)"
    by (simp add: eo wc)
  have ex: "exec_op A cfg p dev h
              = (fst (exec_op A cfg p dev h), snd (write_calls A dev ?w ?ad (values p) h), None)"
    using res by (cases "exec_op A cfg p dev h") simp
  have bits: "\<forall>v \<in> set (values p). \<forall>old.
         bits_written (nat ?w) old v
           = (if val_mask v AND max_values ! unat (width p) = max_values ! unat (width p)
              then val_value v else (old AND NOT (val_mask v)) OR val_value v)"
  proof (intro ballI allI)
    fix v old assume "v \<in> set (values p)"
    with pm have "val_value v AND val_mask v = val_value v"
      by (simp add: list_all_iff premasked_def)
    then show "bits_written (nat ?w) old v
           = (if val_mask v AND max_values ! unat (width p) = max_values ! unat (width p)
              then val_value v else (old AND NOT (val_mask v)) OR val_value v)"
      using full_mask_max_values [OF vw, of v] by (simp add: bits_written_def ix)
  qed
  show "list_all premasked (values p)
   \<and> filter is_call (fst (exec_op A cfg p dev h))
       = filter is_call es1
         @ fst (write_calls A dev (sint (width p)) (sint (b + addr p)) (values p) h)
   \<and> snd (exec_op A cfg p dev h)
       = (snd (write_calls A dev (sint (width p)) (sint (b + addr p)) (values p) h), None)
   \<and> execute A cfg vec_at ops h0
       = and_then
           (es0 @ fst (exec_op A cfg p dev h),
            snd (write_calls A dev (sint (width p)) (sint (b + addr p)) (values p) h), None)
           (run_calls A cfg post)
   \<and> (\<forall>v \<in> set (values p). \<forall>old.
         bits_written (nat (sint (width p))) old v
           = (if val_mask v AND max_values ! unat (width p) = max_values ! unat (width p)
              then val_value v else (old AND NOT (val_mask v)) OR val_value v))
   \<and> (list_all (full_mask (nat (sint (width p)))) (values p) \<longrightarrow>
        filter is_call (fst (exec_op A cfg p dev h))
          = filter is_call es1
            @ map (\<lambda>k. write_event dev (sint (width p))
                         (sint (b + addr p) + int k * sint (width p)) (val_value (values p ! k)))
                [0..<num_values p])"
    using pm calls res bits execute_at [OF sch rc ex]
    by (simp add: write_calls_full num_values_def)
qed

theorem masked_write_witness:
  "parse_op LP64 [] ''04.B=02:0f,10:f0'' 0 = Inr op_04_B_two
   \<and> filter is_call (fst (exec_op mem_lib quiet_cfg op_04_B_two 0 mem_a5))
       = [Read_byte 0 4, Write_byte 0 4 0xa2, Read_byte 0 5, Write_byte 0 5 0x15]
   \<and> execute mem_lib quiet_cfg (\<lambda>k. [0]) [op_04_B_two] mem_a5
       = ([Read_byte 0 4, Write_byte 0 4 0xa2, Read_byte 0 5, Write_byte 0 5 0x15],
          mem_a5(0 := (mem_a5 0)(4 := 0xa2, 5 := 0x15)), None)"
proof -
  have fb: "find_base mem_lib quiet_cfg op_04_B_two 0 mem_a5 = ([], Some 0)"
    by (simp add: find_base_def op_04_B_two_def)
  have d: "demo_mode quiet_cfg = 0" by (simp add: quiet_cfg_def)
  have f: "values op_04_B_two \<noteq> []" "sint (0 + addr op_04_B_two) = 4" "sint (width op_04_B_two) = 1"
    "num_values op_04_B_two = 2"
    by (simp_all add: op_04_B_two_def num_values_def)
  have rc: "run_calls mem_lib quiet_cfg [] mem_a5 = ([], mem_a5, None)" by simp
  have wc: "write_calls mem_lib 0 1 4 (values op_04_B_two) mem_a5
              = ([Read_byte 0 4, Write_byte 0 4 0xa2, Read_byte 0 5, Write_byte 0 5 0x15],
                 mem_a5(0 := (mem_a5 0)(4 := 0xa2, 5 := 0x15)))"
    by (simp add: op_04_B_two_def bits_written_def full_mask_def mask_eq_exp_minus_1 Let_def
        read_value_def read_event_def write_event_def write_hw_def mem_lib_def mem_a5_def)
  have ev: "fst (exec_op mem_lib quiet_cfg op_04_B_two 0 mem_a5)
              = [Read_byte 0 4, Write_byte 0 4 0xa2, Read_byte 0 5, Write_byte 0 5 0x15]"
    by (simp add: exec_eval quiet_cfg_def op_04_B_two_def mem_a5_def)
  from op_04_B_two_parsed [of LP64 "[]"] fb d f rc schedule_single [of "0::nat" op_04_B_two]
    masked_write [where a = LP64 and fp = "[]" and c = "''04.B=02:0f,10:f0''" and sel = 0
      and p = op_04_B_two and cfg = quiet_cfg and A = mem_lib and dev = 0 and h = mem_a5
      and ?es1.0 = "[]" and b = 0 and vec_at = "\<lambda>k. [0]" and ops = "[op_04_B_two]"
      and pre = "[]" and post = "[]" and ?h0.0 = mem_a5 and ?es0.0 = "[]"]
  have "filter is_call (fst (exec_op mem_lib quiet_cfg op_04_B_two 0 mem_a5))
          = fst (write_calls mem_lib 0 1 4 (values op_04_B_two) mem_a5)
        \<and> execute mem_lib quiet_cfg (\<lambda>k. [0]) [op_04_B_two] mem_a5
          = (fst (exec_op mem_lib quiet_cfg op_04_B_two 0 mem_a5),
             snd (write_calls mem_lib 0 1 4 (values op_04_B_two) mem_a5), None)"
    by (simp del: execute.simps)
  then show ?thesis
    using op_04_B_two_parsed [of LP64 "[]"] by (simp add: wc ev del: execute.simps)
qed

text \<open>
  C8, as amended. When demo mode is active no run of \<^verbatim>\<open>execute\<close> contains a call of a
  write primitive. For every operation with values, of a valid width, called by
  \<^verbatim>\<open>execute\<close> on a device, its capability found and its accesses in range, in either
  mode: \<^verbatim>\<open>exec_op\<close> does, for each value in turn at the running address, the read of the
  current contents unless the mask is full, the report of the intended value when the
  verbose option is set, and the write of the computed bits unless demo mode is active;
  \<^verbatim>\<open>execute\<close> goes on from the hardware it leaves; when demo mode is inactive the writes
  are at the running addresses, one for each value.
\<close>

theorem demo_mode_commits_nothing:
  "(demo_mode cfg \<noteq> 0 \<longrightarrow>
      list_all (\<lambda>e. \<not> is_write e) (fst (execute A cfg vec_at ops h0)))
   \<and> (valid_width (width p) \<and> values p \<noteq> []
        \<and> find_base A cfg p dev h = (es1, Some b)
        \<and> sint (b + addr p) + sint (width p) * int (num_values p) \<le> 0x1000
        \<and> schedule vec_at ops = pre @ (dev, p) # post
        \<and> run_calls A cfg pre h0 = (es0, h, None) \<longrightarrow>
      exec_op A cfg p dev h
        = (when_verbose cfg [Print_dev dev] @ es1
             @ when_verbose cfg [Print_addr (sint (b + addr p))]
             @ fst (intended_writes A cfg dev (sint (width p)) (sint (b + addr p)) (values p) h)
             @ when_verbose cfg [Print_newline],
           snd (intended_writes A cfg dev (sint (width p)) (sint (b + addr p)) (values p) h),
           None)
      \<and> execute A cfg vec_at ops h0
        = and_then
            (es0 @ fst (exec_op A cfg p dev h),
             snd (intended_writes A cfg dev (sint (width p)) (sint (b + addr p)) (values p) h),
             None)
            (run_calls A cfg post)
      \<and> (demo_mode cfg = 0 \<longrightarrow>
           accesses (filter is_write (fst (exec_op A cfg p dev h)))
             = map (\<lambda>k. sint (b + addr p) + int k * sint (width p)) [0..<num_values p]))"
proof (intro conjI impI)
  assume "demo_mode cfg \<noteq> 0"
  from execute_quiet [OF this, of h0 A vec_at ops]
  show "list_all (\<lambda>e. \<not> is_write e) (fst (execute A cfg vec_at ops h0))"
    by (simp add: quiet_def)
next
  let ?w = "sint (width p)" and ?ad = "sint (b + addr p)"
  assume a: "valid_width (width p) \<and> values p \<noteq> []
        \<and> find_base A cfg p dev h = (es1, Some b)
        \<and> sint (b + addr p) + sint (width p) * int (num_values p) \<le> 0x1000
        \<and> schedule vec_at ops = pre @ (dev, p) # post
        \<and> run_calls A cfg pre h0 = (es0, h, None)"
  then have vw: "valid_width (width p)" and ne: "values p \<noteq> []"
    and fb: "find_base A cfg p dev h = (es1, Some b)"
    and r: "?ad + ?w * int (num_values p) \<le> 0x1000"
    and sch: "schedule vec_at ops = pre @ (dev, p) # post"
    and rc: "run_calls A cfg pre h0 = (es0, h, None)"
    by simp_all
  note eo = exec_op_intended [OF vw ne fb r]
  show eq: "exec_op A cfg p dev h
        = (when_verbose cfg [Print_dev dev] @ es1
             @ when_verbose cfg [Print_addr (sint (b + addr p))]
             @ fst (intended_writes A cfg dev (sint (width p)) (sint (b + addr p)) (values p) h)
             @ when_verbose cfg [Print_newline],
           snd (intended_writes A cfg dev (sint (width p)) (sint (b + addr p)) (values p) h),
           None)"
    by (rule eo)
  have ex: "exec_op A cfg p dev h
              = (fst (exec_op A cfg p dev h), snd (intended_writes A cfg dev ?w ?ad (values p) h), None)"
    by (simp add: eo)
  show "execute A cfg vec_at ops h0
        = and_then
            (es0 @ fst (exec_op A cfg p dev h),
             snd (intended_writes A cfg dev (sint (width p)) (sint (b + addr p)) (values p) h),
             None)
            (run_calls A cfg post)"
    by (rule execute_at [OF sch rc ex])
  assume d: "demo_mode cfg = 0"
  from find_base_quiet [of A cfg p dev h] fb have q1: "filter is_write es1 = []"
    by (simp add: list_all_iff filter_empty_conv)
  show "accesses (filter is_write (fst (exec_op A cfg p dev h)))
             = map (\<lambda>k. sint (b + addr p) + int k * sint (width p)) [0..<num_values p]"
    by (simp add: eo q1 when_verbose_def intended_write_addresses [OF d] num_values_def)
qed

theorem demo_mode_commits_nothing_witness:
  "execute mem_lib demo_verbose_cfg (\<lambda>k. [0]) [op_04_B_two] mem_a5
     = ([Print_dev 0, Print_addr 4, Read_byte 0 4,
         Print_masked (Some ''%02x->(%02x:%02x)->%02x'') 0xa5 0x02 0x0f 0xa2,
         Read_byte 0 5,
         Print_masked (Some ''%02x->(%02x:%02x)->%02x'') 0xa5 0x10 0xf0 0x15, Print_newline],
        mem_a5, None)
   \<and> list_all (\<lambda>e. \<not> is_write e)
       (fst (execute mem_lib demo_verbose_cfg (\<lambda>k. [0]) [op_04_B_two] mem_a5))
   \<and> execute mem_lib quiet_cfg (\<lambda>k. [0]) [op_04_B_two] mem_a5
     = ([Read_byte 0 4, Write_byte 0 4 0xa2, Read_byte 0 5, Write_byte 0 5 0x15],
        mem_a5(0 := (mem_a5 0)(4 := 0xa2, 5 := 0x15)), None)
   \<and> accesses (filter is_write (fst (exec_op mem_lib quiet_cfg op_04_B_two 0 mem_a5))) = [4, 5]"
proof -
  have fb: "find_base mem_lib demo_verbose_cfg op_04_B_two 0 mem_a5 = ([], Some 0)"
    and fb0: "find_base mem_lib quiet_cfg op_04_B_two 0 mem_a5 = ([], Some 0)"
    by (simp_all add: find_base_def op_04_B_two_def)
  have d: "demo_mode demo_verbose_cfg \<noteq> 0" and d0: "demo_mode quiet_cfg = 0"
    by (simp_all add: demo_verbose_cfg_def quiet_cfg_def)
  have f: "values op_04_B_two \<noteq> []" "sint (0 + addr op_04_B_two) = 4" "sint (width op_04_B_two) = 1"
    "num_values op_04_B_two = 2" "valid_width (width op_04_B_two)" "sint (addr op_04_B_two) = 4"
    by (simp_all add: op_04_B_two_def num_values_def valid_width_def)
  have rc: "run_calls mem_lib demo_verbose_cfg [] mem_a5 = ([], mem_a5, None)"
    and rc0: "run_calls mem_lib quiet_cfg [] mem_a5 = ([], mem_a5, None)" by simp_all
  have iw: "intended_writes mem_lib demo_verbose_cfg 0 1 4 (values op_04_B_two) mem_a5
              = ([Read_byte 0 4,
                  Print_masked (Some ''%02x->(%02x:%02x)->%02x'') 0xa5 0x02 0x0f 0xa2,
                  Read_byte 0 5,
                  Print_masked (Some ''%02x->(%02x:%02x)->%02x'') 0xa5 0x10 0xf0 0x15], mem_a5)"
    by (simp add: op_04_B_two_def full_mask_def mask_eq_exp_minus_1 Let_def when_verbose_def
        demo_verbose_cfg_def mask_formats_def
        read_value_def read_event_def write_event_def write_hw_def mem_lib_def mem_a5_def)
  have iw0: "intended_writes mem_lib quiet_cfg 0 1 4 (values op_04_B_two) mem_a5
              = ([Read_byte 0 4, Write_byte 0 4 0xa2, Read_byte 0 5, Write_byte 0 5 0x15],
                 mem_a5(0 := (mem_a5 0)(4 := 0xa2, 5 := 0x15)))"
    by (simp add: op_04_B_two_def full_mask_def mask_eq_exp_minus_1 Let_def when_verbose_def
        quiet_cfg_def mask_formats_def
        read_value_def read_event_def write_event_def write_hw_def mem_lib_def mem_a5_def)
  have up: "[0..<2] = [0, Suc 0]" by (simp add: upt_conv_Cons)
  note inst = demo_mode_commits_nothing [where cfg = demo_verbose_cfg and A = mem_lib
      and vec_at = "\<lambda>k. [0]" and ops = "[op_04_B_two]" and ?h0.0 = mem_a5
      and p = op_04_B_two and dev = 0 and h = mem_a5
      and ?es1.0 = "[]" and b = 0 and pre = "[]" and post = "[]" and ?es0.0 = "[]"]
  note inst0 = demo_mode_commits_nothing [where cfg = quiet_cfg and A = mem_lib
      and vec_at = "\<lambda>k. [0]" and ops = "[op_04_B_two]" and ?h0.0 = mem_a5
      and p = op_04_B_two and dev = 0 and h = mem_a5
      and ?es1.0 = "[]" and b = 0 and pre = "[]" and post = "[]" and ?es0.0 = "[]"]
  from d inst
  have nw: "list_all (\<lambda>e. \<not> is_write e)
       (fst (execute mem_lib demo_verbose_cfg (\<lambda>k. [0]) [op_04_B_two] mem_a5))"
    by simp
  from fb f rc schedule_single [of "0::nat" op_04_B_two] inst
  have e1: "execute mem_lib demo_verbose_cfg (\<lambda>k. [0]) [op_04_B_two] mem_a5
     = (when_verbose demo_verbose_cfg [Print_dev 0]
             @ when_verbose demo_verbose_cfg [Print_addr 4]
             @ fst (intended_writes mem_lib demo_verbose_cfg 0 1 4 (values op_04_B_two) mem_a5)
             @ when_verbose demo_verbose_cfg [Print_newline],
           snd (intended_writes mem_lib demo_verbose_cfg 0 1 4 (values op_04_B_two) mem_a5),
           None)"
    by (simp del: execute.simps)
  have hyp0: "valid_width (width op_04_B_two) \<and> values op_04_B_two \<noteq> []
        \<and> find_base mem_lib quiet_cfg op_04_B_two 0 mem_a5 = ([], Some 0)
        \<and> sint (0 + addr op_04_B_two) + sint (width op_04_B_two) * int (num_values op_04_B_two)
            \<le> 0x1000
        \<and> schedule (\<lambda>k. [0 :: nat]) [op_04_B_two] = [] @ (0, op_04_B_two) # []
        \<and> run_calls mem_lib quiet_cfg [] mem_a5 = ([], mem_a5, None)"
    using fb0 f schedule_single [of "0::nat" op_04_B_two] by simp
  note c0 = inst0 [THEN conjunct2, THEN mp, OF hyp0]
  from c0 [THEN conjunct2, THEN conjunct1] c0 [THEN conjunct1]
  have e0: "execute mem_lib quiet_cfg (\<lambda>k. [0]) [op_04_B_two] mem_a5
     = (when_verbose quiet_cfg [Print_dev 0]
             @ when_verbose quiet_cfg [Print_addr 4]
             @ fst (intended_writes mem_lib quiet_cfg 0 1 4 (values op_04_B_two) mem_a5)
             @ when_verbose quiet_cfg [Print_newline],
           snd (intended_writes mem_lib quiet_cfg 0 1 4 (values op_04_B_two) mem_a5),
           None)"
    by (simp add: f del: execute.simps)
  from c0 [THEN conjunct2, THEN conjunct2, THEN mp, OF d0]
  have a0: "accesses (filter is_write (fst (exec_op mem_lib quiet_cfg op_04_B_two 0 mem_a5)))
              = [4, 5]"
    by (simp add: f up del: upt_Suc)
  have v: "when_verbose demo_verbose_cfg es = es" and v0: "when_verbose quiet_cfg es = []"
    for es :: "nat event list"
    by (simp_all add: when_verbose_def demo_verbose_cfg_def quiet_cfg_def)
  from e1 e0 a0 nw show ?thesis
    by (simp add: iw iw0 v v0 del: execute.simps)
qed

text \<open>
  C8, as stated, fails: in demo mode without the verbose option the masked write of
  \<^verbatim>\<open>04.B=02:0f\<close> reads the byte and reports nothing.
\<close>

theorem demo_mode_reports_nothing_counterexample:
  "demo_mode demo_cfg \<noteq> 0
   \<and> execute mem_lib demo_cfg (\<lambda>k. [0]) [op_04_B_02_0f] mem_a5 = ([Read_byte 0 4], mem_a5, None)"
  by (simp add: exec_eval demo_cfg_def op_04_B_02_0f_def mem_a5_def)

subsection \<open>The argument tail\<close>

lemma copy_matching_filter: "copy_matching m zs = filter m zs"
  by (induction zs) simp_all

lemma count_matching_length: "count_matching m zs cnt = cnt + length (filter m zs)"
  by (induction zs arbitrary: cnt) simp_all

lemma select_devices_filter:
  "select_devices L devices filt
     = (Suc (length (filter (pci_filter_match L filt) devices)),
        filter (pci_filter_match L filt) devices)"
  by (simp add: select_devices_def copy_matching_filter count_matching_length)

lemma parse_ops_step_filter:
  assumes "is_filter_option c" and "parse_ops_step a L cfg devices f st c rest = Inr (st', rest')"
  shows "st' = st\<lparr>ps_filter := ps_filter st', ps_state := STATE_GOT_FILTER\<rparr>
         \<and> ps_state st' = STATE_GOT_FILTER \<and> ps_vectors st' = ps_vectors st
         \<and> ps_selected st' = ps_selected st \<and> ps_ops st' = ps_ops st
         \<and> ps_warnings st' = ps_warnings st
         \<and> parse_filter L (c # rest)
              (if ps_state st = STATE_GOT_FILTER then ps_filter st else pci_filter_init L)
             = Inr (rest', ps_filter st')"
  using assms
  by (auto simp: parse_ops_step_def is_filter_option_def split: sum.splits if_splits)

lemma parse_ops_step_op:
  assumes "\<not> is_filter_option c" and "parse_ops_step a L cfg devices f st c rest = Inr (st', rest')"
  shows "rest' = rest \<and> ps_state st \<noteq> STATE_INIT \<and> ps_state st' = STATE_GOT_OP
         \<and> ps_filter st' = ps_filter st
         \<and> (ps_state st = STATE_GOT_FILTER \<longrightarrow>
               ps_vectors st' = ps_vectors st @ [filter (pci_filter_match L (ps_filter st)) devices]
               \<and> ps_selected st' = Some (length (ps_vectors st)))
         \<and> (ps_state st = STATE_GOT_OP \<longrightarrow>
               ps_vectors st' = ps_vectors st \<and> ps_selected st' = ps_selected st)
         \<and> (\<exists>p sel. ps_selected st' = Some sel
                     \<and> parse_op a (f (length (ps_ops st))) c sel = Inr p
                     \<and> ps_ops st' = ps_ops st @ [p])"
proof -
  from assms have ni: "ps_state st \<noteq> STATE_INIT"
    by (auto simp: parse_ops_step_def is_filter_option_def split: if_splits)
  show ?thesis
  proof (cases "ps_state st = STATE_GOT_FILTER")
    case True
    with assms show ?thesis
      by (auto simp: parse_ops_step_def is_filter_option_def Let_def select_devices_filter
               split: sum.splits if_splits)
  next
    case False
    with ni have op: "ps_state st = STATE_GOT_OP" by (cases "ps_state st") simp_all
    with assms show ?thesis
      by (auto simp: parse_ops_step_def is_filter_option_def Let_def
               split: sum.splits if_splits option.splits)
  qed
qed

lemma parse_ops_loop_invariant:
  assumes "parse_ops_loop a L cfg devices f st args = Inr st'" and "I st"
    and "\<And>st c rest st' rest'.
           I st \<Longrightarrow> parse_ops_step a L cfg devices f st c rest = Inr (st', rest') \<Longrightarrow> I st'"
  shows "I st'"
  using assms
proof (induction a L cfg devices f st args rule: parse_ops_loop.induct)
  case (1 a L cfg devices f0 st)
  then show ?case by simp
next
  case (2 a L cfg devices f0 st c rest)
  from "2.prems"(1) obtain st1 rest1
    where s: "parse_ops_step a L cfg devices f0 st c rest = Inr (st1, rest1)"
      and l: "parse_ops_loop a L cfg devices f0 st1 rest1 = Inr st'"
    by (cases "parse_ops_step a L cfg devices f0 st c rest") auto
  have "I st1" using "2.prems"(3) [OF "2.prems"(2) s] .
  from "2.IH" [OF s refl l this "2.prems"(3)] show ?case by simp
qed

lemma parse_ops_step_state:
  "parse_ops_step a L cfg devices f st c rest = Inr (st', rest') \<Longrightarrow> ps_state st' \<noteq> STATE_INIT"
  using parse_ops_step_filter [of c a L cfg devices f st rest st' rest']
    parse_ops_step_op [of c a L cfg devices f st rest st' rest']
  by (cases "is_filter_option c") auto

lemma parse_ops_loop_state:
  assumes "parse_ops_loop a L cfg devices f st args = Inr st'" and "args \<noteq> [] \<or> ps_state st \<noteq> STATE_INIT"
  shows "ps_state st' \<noteq> STATE_INIT"
proof (cases args)
  case Nil
  with assms show ?thesis by simp
next
  case (Cons c rest)
  with assms(1) obtain st1 rest1
    where s: "parse_ops_step a L cfg devices f st c rest = Inr (st1, rest1)"
      and l: "parse_ops_loop a L cfg devices f st1 rest1 = Inr st'"
    by (cases "parse_ops_step a L cfg devices f st c rest") auto
  from parse_ops_loop_invariant [OF l, of "\<lambda>s. ps_state s \<noteq> STATE_INIT"]
    parse_ops_step_state [OF s] parse_ops_step_state
  show ?thesis by blast
qed

lemma parse_ops_widths:
  assumes "parse_ops a L cfg devices f args = Inr st"
  shows "list_all (\<lambda>p. valid_width (width p)) (ps_ops st)"
proof -
  let ?init = "\<lparr>ps_state = STATE_INIT, ps_filter = pci_filter_init L, ps_selected = None,
              ps_vectors = [], ps_ops = [], ps_warnings = []\<rparr> :: ('a, 'b) pstate"
  from assms have l: "parse_ops_loop a L cfg devices f ?init args = Inr st"
    by (auto simp: parse_ops_def split: sum.splits if_splits)
  show ?thesis
  proof (rule parse_ops_loop_invariant [OF l, of "\<lambda>s. list_all (\<lambda>p. valid_width (width p)) (ps_ops s)"])
    show "list_all (\<lambda>p. valid_width (width p)) (ps_ops ?init)" by simp
  next
    fix st c rest st' rest'
    assume i: "list_all (\<lambda>p. valid_width (width p)) (ps_ops st)"
      and s: "parse_ops_step a L cfg devices f st c rest = Inr (st', rest')"
    show "list_all (\<lambda>p. valid_width (width p)) (ps_ops st')"
    proof (cases "is_filter_option c")
      case True
      from parse_ops_step_filter [OF True s] have "ps_ops st' = ps_ops st" by simp
      with i show ?thesis by simp
    next
      case False
      from parse_ops_step_op [OF False s] obtain p sel fx
        where "parse_op a fx c sel = Inr p" "ps_ops st' = ps_ops st @ [p]" by blast
      with i parse_op_width show ?thesis by simp
    qed
  qed
qed

lemma parse_filter_error: "parse_filter L args F = Inl e \<Longrightarrow> e \<noteq> No_operation"
  by (auto simp: parse_filter_def split: list.splits if_splits option.splits prod.splits)

lemma parse_width_error: "parse_width ws = Inl e \<Longrightarrow> e \<noteq> No_operation"
  by (auto simp: parse_width_def split: option.splits if_splits)

lemma parse_register_error: "parse_register a p base = Inl e \<Longrightarrow> e = Unknown_register base"
proof (cases "is_full (parse_x32 a base)")
  case True
  then obtain n where "parse_x32 a base = X32_full n"
    by (cases "parse_x32 a base") (simp_all add: is_full_def)
  from parse_register_number [OF this, of p] show "parse_register a p base = Inl e \<Longrightarrow> ?thesis"
    by simp
next
  case nofull: False
  assume e: "parse_register a p base = Inl e"
  show ?thesis
  proof (cases "parse_reg_name base")
    case (Some r)
    from e parse_register_name [OF nofull Some, of p] show ?thesis by simp
  next
    case None
    show ?thesis
    proof (cases "strncasecmp_eq base ''CAP'' 3")
      case True
      from e parse_register_cap [OF nofull None True, of p] show ?thesis
        by (auto split: x32.splits if_splits)
    next
      case nocap: False
      show ?thesis
      proof (cases "strncasecmp_eq base ''ECAP'' 4")
        case True
        from e parse_register_ecap [OF nofull None nocap True, of p] show ?thesis
          by (auto split: x32.splits if_splits)
      next
        case False
        from e parse_register_unknown [OF nofull None nocap False, of p] show ?thesis by simp
      qed
    qed
  qed
qed

lemma parse_op_register_error: "parse_op_register a c sel = Inl e \<Longrightarrow> e \<noteq> No_operation"
proof -
  assume e: "parse_op_register a c sel = Inl e"
  obtain b1 value_s where c1: "strchr_cut CHR ''='' c = (b1, value_s)" by (cases "strchr_cut CHR ''='' c")
  obtain b2 width_s where c2: "strchr_cut CHR ''.'' b1 = (b2, width_s)" by (cases "strchr_cut CHR ''.'' b1")
  obtain base offset_s where c3: "strchr_cut CHR ''+'' b2 = (base, offset_s)" by (cases "strchr_cut CHR ''+'' b2")
  show ?thesis
  proof (cases "parse_width width_s")
    case (Inl err)
    with e c1 c2 c3 parse_width_error [OF Inl] show ?thesis
      by (auto simp: parse_op_register_def split: if_splits)
  next
    case (Inr w)
    let ?p0 = "\<lparr>dev_vector = sel, cap = 0, addr = 0, width = w, values = []\<rparr>"
    show ?thesis
    proof (cases "parse_register a ?p0 base")
      case (Inl err)
      with e c1 c2 c3 Inr parse_register_error [OF Inl] show ?thesis
        by (auto simp: parse_op_register_def split: if_splits)
    next
      case (Inr p1)
      with e c1 c2 c3 \<open>parse_width width_s = Inr w\<close> show ?thesis
        by (auto simp: parse_op_register_def Let_def split: if_splits option.splits x32.splits)
    qed
  qed
qed

lemma parse_value_error: "parse_value a lim f v = Inl e \<Longrightarrow> e \<noteq> No_operation"
  by (cases "parse_x32 a v")
     (auto simp: parse_value_def Let_def split: if_splits x32.splits)

lemma parse_values_error: "parse_values a lim f vs n = Inl e \<Longrightarrow> e \<noteq> No_operation"
proof (induction a lim f vs n rule: parse_values.induct)
  case (1 a lim f "value")
  then show ?case by simp
next
  case (2 a lim f j)
  then show ?case by auto
next
  case (3 a lim f v j)
  obtain seg e' where cut: "strchr_cut CHR '','' v = (seg, e')" by (cases "strchr_cut CHR '','' v")
  show ?case
  proof (cases "parse_value a lim f seg")
    case (Inl err)
    with "3.prems" cut parse_value_error [OF Inl] show ?thesis by simp
  next
    case (Inr r)
    obtain x f' where r: "r = (x, f')" by (cases r)
    from "3.prems" cut Inr r have "parse_values a lim f' e' j = Inl e"
      by (cases "parse_values a lim f' e' j") auto
    from "3.IH" [OF cut [symmetric] Inr [unfolded r] refl this] show ?thesis .
  qed
qed

lemma parse_op_error: "parse_op a fp c sel = Inl e \<Longrightarrow> e \<noteq> No_operation"
proof (cases "parse_op_register a c sel")
  case (Inl err)
  assume "parse_op a fp c sel = Inl e"
  with Inl parse_op_register_error [OF Inl] show ?thesis by (simp add: parse_op_def)
next
  case (Inr r)
  assume e: "parse_op a fp c sel = Inl e"
  obtain p n vs where r: "r = (p, n, vs)" by (cases r)
  from e Inr r parse_values_error [of a "max_values ! unat (width p)" fp vs n e]
  show ?thesis by (auto simp: parse_op_def split: if_splits sum.splits)
qed

lemma parse_ops_step_error:
  assumes "parse_ops_step a L cfg devices f st c rest = Inl (e, ws)"
  shows "e \<noteq> No_operation"
proof (cases "is_filter_option c")
  case True
  then have fo: "(c \<noteq> [] \<and> hd c = CHR ''-'') = True" by (simp add: is_filter_option_def)
  from assms show ?thesis
    unfolding parse_ops_step_def fo if_True
    by (auto dest: parse_filter_error split: sum.splits)
next
  case False
  then have nf: "(c \<noteq> [] \<and> hd c = CHR ''-'') = False" by (simp add: is_filter_option_def)
  from assms show ?thesis
    unfolding parse_ops_step_def nf if_False
    by (auto simp: Let_def dest: parse_op_error split: if_splits sum.splits option.splits)
qed

lemma parse_ops_loop_error:
  "parse_ops_loop a L cfg devices f st args = Inl (e, ws) \<Longrightarrow> e \<noteq> No_operation"
proof (induction a L cfg devices f st args rule: parse_ops_loop.induct)
  case (1 a L cfg devices f0 st)
  then show ?case by simp
next
  case (2 a L cfg devices f0 st c rest)
  show ?case
  proof (cases "parse_ops_step a L cfg devices f0 st c rest")
    case (Inl err)
    with "2.prems" parse_ops_step_error [of a L cfg devices f0 st c rest e ws] show ?thesis by simp
  next
    case (Inr r)
    obtain st1 rest1 where r: "r = (st1, rest1)" by (cases r)
    from "2.prems" Inr r have "parse_ops_loop a L cfg devices f0 st1 rest1 = Inl (e, ws)" by simp
    from "2.IH" [OF Inr [unfolded r] refl this] show ?thesis .
  qed
qed

lemma parse_filter_append:
  assumes "parse_filter L (c # rest) F = Inr (rest', F')"
  shows "parse_filter L (c # rest @ extra) F = Inr (rest' @ extra, F')"
proof (cases "2 < length c")
  case True
  with assms show ?thesis
    by (simp add: parse_filter_def split: if_splits prod.splits option.splits)
next
  case False
  show ?thesis
  proof (cases rest)
    case Nil
    with assms False show ?thesis
      by (simp add: parse_filter_def split: if_splits)
  next
    case (Cons x r)
    with assms False show ?thesis
      by (simp add: parse_filter_def split: if_splits prod.splits option.splits)
  qed
qed

lemma parse_ops_step_append:
  assumes "parse_ops_step a L cfg devices f st c rest = Inr (st', rest')"
  shows "parse_ops_step a L cfg devices f st c (rest @ extra) = Inr (st', rest' @ extra)"
proof (cases "is_filter_option c")
  case True
  let ?F = "if ps_state st \<noteq> STATE_GOT_FILTER then pci_filter_init L else ps_filter st"
  from assms True obtain F' where pf: "parse_filter L (c # rest) ?F = Inr (rest', F')"
    and st': "st' = st\<lparr>ps_filter := F', ps_state := STATE_GOT_FILTER\<rparr>"
    by (cases "parse_filter L (c # rest) ?F")
       (auto simp: parse_ops_step_def is_filter_option_def)
  from parse_filter_append [OF pf, of extra] True st' show ?thesis
    by (simp add: parse_ops_step_def is_filter_option_def)
next
  case False
  then have nf: "(c \<noteq> [] \<and> hd c = CHR ''-'') = False" by (simp add: is_filter_option_def)
  from assms show ?thesis
    unfolding parse_ops_step_def nf if_False
    by (auto simp: Let_def split: if_splits option.splits sum.splits)
qed

lemma parse_ops_loop_append:
  "parse_ops_loop a L cfg devices f st args = Inr st' \<Longrightarrow>
   parse_ops_loop a L cfg devices f st (args @ extra) = parse_ops_loop a L cfg devices f st' extra"
proof (induction a L cfg devices f st args rule: parse_ops_loop.induct)
  case (1 a L cfg devices f0 st)
  then show ?case by simp
next
  case (2 a L cfg devices f0 st c rest)
  from "2.prems" obtain st1 rest1
    where s: "parse_ops_step a L cfg devices f0 st c rest = Inr (st1, rest1)"
      and l: "parse_ops_loop a L cfg devices f0 st1 rest1 = Inr st'"
    by (cases "parse_ops_step a L cfg devices f0 st c rest") auto
  from "2.IH" [OF s refl l] parse_ops_step_append [OF s, of extra] show ?case by simp
qed

lemma concat_groups: "concat (groups ops) = ops"
  by (induction ops) (auto split: list.splits)

lemma schedule_ops: "(dev, p) \<in> set (schedule vec_at ops) \<Longrightarrow> p \<in> set ops"
proof -
  assume "(dev, p) \<in> set (schedule vec_at ops)"
  then obtain g where "g \<in> set (groups ops)" "p \<in> set g"
    by (auto simp: schedule_def)
  then have "p \<in> set (concat (groups ops))" by auto
  then show ?thesis by (simp add: concat_groups)
qed

lemma parse_ops_loop_of_parse_ops:
  "parse_ops a L cfg devices f args = Inr st \<Longrightarrow>
   parse_ops_loop a L cfg devices f
     \<lparr>ps_state = STATE_INIT, ps_filter = pci_filter_init L, ps_selected = None,
      ps_vectors = [], ps_ops = [], ps_warnings = []\<rparr> args = Inr st
   \<and> ps_state st \<noteq> STATE_INIT"
  by (auto simp: parse_ops_def split: sum.splits if_splits)

lemma parse_op_missing_width:
  assumes "strchr_cut CHR ''='' c = (b1, value_s)" and "strchr_cut CHR ''.'' b1 = (b2, None)"
    and "strchr_cut CHR ''+'' b2 = (base, offset_s)" and "value_s \<noteq> Some []"
    and "parse_register a \<lparr>dev_vector = sel, cap = 0, addr = 0, width = 0, values = []\<rparr> base = Inr p1"
    and "width p1 = 0"
  shows "parse_op a fp c sel = Inl Missing_width"
  using assms by (simp add: parse_op_def parse_op_register_def parse_width_def)

lemmas ops_eval = parse_ops_def parse_ops_step_def parse_filter_def select_devices_def
  slot_id_lib_def three_devices_def slot_names_def id_names_def quiet_cfg_def

text \<open>
  The warning for an operation whose vector is empty is written before the operation is
  parsed: it has been written when \<^verbatim>\<open>parse_op\<close> dies on that operation.
\<close>

lemma main_warning_before_error:
  "setpci_main LP64 slot_id_lib mem_lib quiet_cfg three_devices (\<lambda>k. [])
     [''-s'', ''00:07.0'', ''04=1''] mem_a5
     = ([''04=1''], [], mem_a5, Some Missing_width)"
  by (simp add: setpci_main_def ops_eval op_eval' parse_register_def x32_eval)

lemma parse_op_dev_vector: "parse_op a fp c sel = Inr p \<Longrightarrow> dev_vector p = sel"
proof -
  assume "parse_op a fp c sel = Inr p"
  then obtain p' n vs xs where "parse_op_register a c sel = Inr (p', n, vs)" "p = p'\<lparr>values := xs\<rparr>"
    by (rule parse_op_result)
  with parse_op_register_result [of a c sel p' n vs] show ?thesis by simp
qed

text \<open>
  C7, as amended. A filter token read in a state other than \<^verbatim>\<open>STATE_GOT_FILTER\<close> starts
  from a new filter (\<^verbatim>\<open>pci_filter_init\<close>), one read in \<^verbatim>\<open>STATE_GOT_FILTER\<close> refines the
  filter of the tokens before it; in both cases the state becomes \<^verbatim>\<open>STATE_GOT_FILTER\<close> and
  no device vector is built: the vectors, the selected vector, the operations and the
  warnings are as before. The vector is built by the first operation token after the
  filter: it is appended to the vectors, it becomes the selected vector and the vector of
  the operation, and it holds the devices of the whole device list that match the filter,
  in the order of the list; an operation token read in \<^verbatim>\<open>STATE_GOT_OP\<close> builds none and
  takes the selected vector. \<^verbatim>\<open>select_devices\<close> counts the matching devices and one more
  for the terminating null.
\<close>

theorem filter_and_vector:
  "(is_filter_option c \<and> parse_ops_step a L cfg devices f0 st c rest = Inr (st', rest') \<longrightarrow>
      ps_state st' = STATE_GOT_FILTER
      \<and> parse_filter L (c # rest)
           (if ps_state st = STATE_GOT_FILTER then ps_filter st else pci_filter_init L)
          = Inr (rest', ps_filter st')
      \<and> ps_vectors st' = ps_vectors st \<and> ps_selected st' = ps_selected st
      \<and> ps_ops st' = ps_ops st \<and> ps_warnings st' = ps_warnings st)
   \<and> (\<not> is_filter_option c \<and> parse_ops_step a L cfg devices f0 st c rest = Inr (st', rest') \<longrightarrow>
      ps_state st \<noteq> STATE_INIT \<and> ps_state st' = STATE_GOT_OP \<and> ps_filter st' = ps_filter st
      \<and> (ps_state st = STATE_GOT_FILTER \<longrightarrow>
            ps_vectors st' = ps_vectors st @ [filter (pci_filter_match L (ps_filter st)) devices]
            \<and> ps_selected st' = Some (length (ps_vectors st)))
      \<and> (ps_state st = STATE_GOT_OP \<longrightarrow>
            ps_vectors st' = ps_vectors st \<and> ps_selected st' = ps_selected st)
      \<and> (\<exists>p. ps_ops st' = ps_ops st @ [p] \<and> ps_selected st' = Some (dev_vector p)))
   \<and> select_devices L devices filt
        = (Suc (length (filter (pci_filter_match L filt) devices)),
           filter (pci_filter_match L filt) devices)"
proof -
  have A: "is_filter_option c \<and> parse_ops_step a L cfg devices f0 st c rest = Inr (st', rest') \<longrightarrow>
      ps_state st' = STATE_GOT_FILTER
      \<and> parse_filter L (c # rest)
           (if ps_state st = STATE_GOT_FILTER then ps_filter st else pci_filter_init L)
          = Inr (rest', ps_filter st')
      \<and> ps_vectors st' = ps_vectors st \<and> ps_selected st' = ps_selected st
      \<and> ps_ops st' = ps_ops st \<and> ps_warnings st' = ps_warnings st"
  proof (intro impI)
    assume a: "is_filter_option c \<and> parse_ops_step a L cfg devices f0 st c rest = Inr (st', rest')"
    then have fo: "is_filter_option c"
      and s: "parse_ops_step a L cfg devices f0 st c rest = Inr (st', rest')" by simp_all
    from parse_ops_step_filter [OF fo s]
    show "ps_state st' = STATE_GOT_FILTER
      \<and> parse_filter L (c # rest)
           (if ps_state st = STATE_GOT_FILTER then ps_filter st else pci_filter_init L)
          = Inr (rest', ps_filter st')
      \<and> ps_vectors st' = ps_vectors st \<and> ps_selected st' = ps_selected st
      \<and> ps_ops st' = ps_ops st \<and> ps_warnings st' = ps_warnings st"
      by simp
  qed
  have B: "\<not> is_filter_option c \<and> parse_ops_step a L cfg devices f0 st c rest = Inr (st', rest') \<longrightarrow>
      ps_state st \<noteq> STATE_INIT \<and> ps_state st' = STATE_GOT_OP \<and> ps_filter st' = ps_filter st
      \<and> (ps_state st = STATE_GOT_FILTER \<longrightarrow>
            ps_vectors st' = ps_vectors st @ [filter (pci_filter_match L (ps_filter st)) devices]
            \<and> ps_selected st' = Some (length (ps_vectors st)))
      \<and> (ps_state st = STATE_GOT_OP \<longrightarrow>
            ps_vectors st' = ps_vectors st \<and> ps_selected st' = ps_selected st)
      \<and> (\<exists>p. ps_ops st' = ps_ops st @ [p] \<and> ps_selected st' = Some (dev_vector p))"
  proof (intro impI)
    assume a: "\<not> is_filter_option c \<and> parse_ops_step a L cfg devices f0 st c rest = Inr (st', rest')"
    then have fo: "\<not> is_filter_option c"
      and s: "parse_ops_step a L cfg devices f0 st c rest = Inr (st', rest')" by simp_all
    note r = parse_ops_step_op [OF fo s]
    from r obtain p sel where p: "ps_selected st' = Some sel"
      "parse_op a (f0 (length (ps_ops st))) c sel = Inr p" "ps_ops st' = ps_ops st @ [p]" by blast
    from parse_op_dev_vector [OF p(2)] p
    have ex: "\<exists>p. ps_ops st' = ps_ops st @ [p] \<and> ps_selected st' = Some (dev_vector p)" by auto
    from r ex
    show "ps_state st \<noteq> STATE_INIT \<and> ps_state st' = STATE_GOT_OP \<and> ps_filter st' = ps_filter st
      \<and> (ps_state st = STATE_GOT_FILTER \<longrightarrow>
            ps_vectors st' = ps_vectors st @ [filter (pci_filter_match L (ps_filter st)) devices]
            \<and> ps_selected st' = Some (length (ps_vectors st)))
      \<and> (ps_state st = STATE_GOT_OP \<longrightarrow>
            ps_vectors st' = ps_vectors st \<and> ps_selected st' = ps_selected st)
      \<and> (\<exists>p. ps_ops st' = ps_ops st @ [p] \<and> ps_selected st' = Some (dev_vector p))"
      by simp
  qed
  show ?thesis
    by (intro conjI A B select_devices_filter)
qed

theorem filter_and_vector_witness:
  "parse_ops_step LP64 slot_id_lib quiet_cfg three_devices (\<lambda>k. [])
      \<lparr>ps_state = STATE_GOT_OP, ps_filter = (None, Some ''1013:00b8''), ps_selected = Some 0,
       ps_vectors = [[2]],
       ps_ops = [\<lparr>dev_vector = 0, cap = 0, addr = 4, width = 1, values = []\<rparr>],
       ps_warnings = []\<rparr>
      ''-s'' [''00:01.0'', ''06.W'']
     = Inr (\<lparr>ps_state = STATE_GOT_FILTER, ps_filter = (Some ''00:01.0'', None), ps_selected = Some 0,
             ps_vectors = [[2]],
             ps_ops = [\<lparr>dev_vector = 0, cap = 0, addr = 4, width = 1, values = []\<rparr>],
             ps_warnings = []\<rparr>, [''06.W''])
   \<and> parse_ops_step LP64 slot_id_lib quiet_cfg three_devices (\<lambda>k. [])
      \<lparr>ps_state = STATE_GOT_FILTER, ps_filter = (Some ''00:01.0'', None), ps_selected = Some 0,
       ps_vectors = [[2]],
       ps_ops = [\<lparr>dev_vector = 0, cap = 0, addr = 4, width = 1, values = []\<rparr>],
       ps_warnings = []\<rparr>
      ''06.W'' []
     = Inr (\<lparr>ps_state = STATE_GOT_OP, ps_filter = (Some ''00:01.0'', None), ps_selected = Some 1,
             ps_vectors = [[2], [1]],
             ps_ops = [\<lparr>dev_vector = 0, cap = 0, addr = 4, width = 1, values = []\<rparr>,
                       \<lparr>dev_vector = 1, cap = 0, addr = 6, width = 2, values = []\<rparr>],
             ps_warnings = []\<rparr>, [])
   \<and> filter (pci_filter_match slot_id_lib (Some ''00:01.0'', None)) three_devices
       = [1]"
proof -
  let ?st0 = "\<lparr>ps_state = STATE_GOT_OP, ps_filter = (None, Some ''1013:00b8''), ps_selected = Some 0,
       ps_vectors = [[2]],
       ps_ops = [\<lparr>dev_vector = 0, cap = 0, addr = 4, width = 1, values = []\<rparr>],
       ps_warnings = []\<rparr> :: (string option \<times> string option, nat) pstate"
  let ?st1 = "\<lparr>ps_state = STATE_GOT_FILTER, ps_filter = (Some ''00:01.0'', None), ps_selected = Some 0,
       ps_vectors = [[2]],
       ps_ops = [\<lparr>dev_vector = 0, cap = 0, addr = 4, width = 1, values = []\<rparr>],
       ps_warnings = []\<rparr> :: (string option \<times> string option, nat) pstate"
  let ?st2 = "\<lparr>ps_state = STATE_GOT_OP, ps_filter = (Some ''00:01.0'', None), ps_selected = Some 1,
             ps_vectors = [[2], [1]],
             ps_ops = [\<lparr>dev_vector = 0, cap = 0, addr = 4, width = 1, values = []\<rparr>,
                       \<lparr>dev_vector = 1, cap = 0, addr = 6, width = 2, values = []\<rparr>],
             ps_warnings = []\<rparr> :: (string option \<times> string option, nat) pstate"
  have s1: "parse_ops_step LP64 slot_id_lib quiet_cfg three_devices (\<lambda>k. []) ?st0
              ''-s'' [''00:01.0'', ''06.W''] = Inr (?st1, [''06.W''])"
    by (simp add: ops_eval)
  have s2: "parse_ops_step LP64 slot_id_lib quiet_cfg three_devices (\<lambda>k. []) ?st1 ''06.W'' []
              = Inr (?st2, [])"
    by (simp add: ops_eval op_eval' parse_register_def x32_eval)
  have f1: "is_filter_option ''-s''" and f2: "\<not> is_filter_option ''06.W''"
    by (simp_all add: is_filter_option_def)
  from f1 s1
    filter_and_vector [where a = LP64 and L = slot_id_lib and cfg = quiet_cfg
      and devices = three_devices and ?f0.0 = "\<lambda>k. []" and st = ?st0 and c = "''-s''"
      and rest = "[''00:01.0'', ''06.W'']" and st' = ?st1 and rest' = "[''06.W'']"]
  have v1: "ps_vectors ?st1 = ps_vectors ?st0" by simp
  from f2 s2
    filter_and_vector [where a = LP64 and L = slot_id_lib and cfg = quiet_cfg
      and devices = three_devices and ?f0.0 = "\<lambda>k. []" and st = ?st1 and c = "''06.W''"
      and rest = "[]" and st' = ?st2 and rest' = "[]"]
  have v2: "ps_vectors ?st2
              = ps_vectors ?st1 @ [filter (pci_filter_match slot_id_lib (ps_filter ?st1)) three_devices]"
    by simp
  from v2 have "filter (pci_filter_match slot_id_lib (Some ''00:01.0'', None)) three_devices
                  = [1]" by simp
  with s1 s2 show ?thesis by simp
qed

text \<open>
  C7, as stated, fails: after the two filter tokens \<^verbatim>\<open>-s 00:01.0\<close> and \<^verbatim>\<open>-d 8086:7000\<close>
  no device vector exists, and the filter is the one of \<^verbatim>\<open>-s 00:01.0\<close> refined by
  \<^verbatim>\<open>-d 8086:7000\<close>, not the new filter that \<^verbatim>\<open>-d 8086:7000\<close> alone gives.
\<close>

theorem filter_token_builds_no_vector_counterexample:
  "parse_ops LP64 slot_id_lib quiet_cfg three_devices (\<lambda>k. [])
      [''-s'', ''00:01.0'', ''-d'', ''8086:7000'']
     = Inr \<lparr>ps_state = STATE_GOT_FILTER, ps_filter = (Some ''00:01.0'', Some ''8086:7000''),
            ps_selected = None, ps_vectors = [], ps_ops = [], ps_warnings = []\<rparr>
   \<and> pci_filter_parse_id slot_id_lib (pci_filter_init slot_id_lib) ''8086:7000''
     = (None, (None, Some ''8086:7000''))
   \<and> filter (pci_filter_match slot_id_lib (None, Some ''8086:7000'')) three_devices
     = [1]"
  by (simp add: ops_eval)

text \<open>
  C9. Every operation of the list that \<^verbatim>\<open>parse_ops\<close> builds has width 1, 2 or 4, and so
  has every operation that \<^verbatim>\<open>execute\<close> calls \<^verbatim>\<open>exec_op\<close> on: the entries of
  \<^verbatim>\<open>max_values\<close>, \<^verbatim>\<open>formats\<close> and \<^verbatim>\<open>mask_formats\<close> it reads are not the entries 0 and 3.
  A width suffix that \<^verbatim>\<open>parse_width\<close> accepts gives 1, 2 or 4, and no suffix gives 0; the
  widths of the register table are 0, 1, 2 or 4; \<^verbatim>\<open>parse_register\<close> keeps the width it is
  given or, when that is 0, leaves 0 or a width of the table; a width still 0 after
  \<^verbatim>\<open>parse_register\<close> makes \<^verbatim>\<open>parse_op\<close> die with the missing-width error, and every
  operation \<^verbatim>\<open>parse_op\<close> returns has width 1, 2 or 4.
\<close>

theorem accepted_widths:
  "(parse_ops a L cfg devices f0 args = Inr st \<longrightarrow>
      (\<forall>p \<in> set (ps_ops st). valid_width (width p))
      \<and> setpci_main a L A cfg devices f0 args h
          = (ps_warnings st,
             run_calls A cfg (schedule (\<lambda>k. ps_vectors st ! k) (ps_ops st)) h)
      \<and> (\<forall>(dev, p) \<in> set (schedule (\<lambda>k. ps_vectors st ! k) (ps_ops st)).
            table_index_ok (nat (sint (width p))) \<and> table_index_ok (unat (width p))))
   \<and> (parse_width (Some s) = Inr w \<longrightarrow> valid_width w)
   \<and> parse_width None = Inr 0
   \<and> (\<forall>r \<in> set pci_reg_names. rn_width r = 0 \<or> valid_width (rn_width r))
   \<and> (parse_register a q base = Inr q' \<longrightarrow>
        width q' = width q \<or> width q = 0 \<and> valid_width (width q'))
   \<and> (strchr_cut CHR ''='' c = (b1, value_s) \<and> strchr_cut CHR ''.'' b1 = (b2, None)
        \<and> strchr_cut CHR ''+'' b2 = (base, offset_s) \<and> value_s \<noteq> Some []
        \<and> parse_register a \<lparr>dev_vector = sel, cap = 0, addr = 0, width = 0, values = []\<rparr> base
            = Inr p1
        \<and> width p1 = 0 \<longrightarrow>
      parse_op a fp c sel = Inl Missing_width)
   \<and> (parse_op a fq c' sel' = Inr p \<longrightarrow> valid_width (width p))"
proof (intro conjI impI ballI)
  assume po: "parse_ops a L cfg devices f0 args = Inr st"
  from parse_ops_widths [OF po] show w: "valid_width (width p)" if "p \<in> set (ps_ops st)" for p
    using that by (simp add: list_all_iff)
  show "setpci_main a L A cfg devices f0 args h
          = (ps_warnings st,
             run_calls A cfg (schedule (\<lambda>k. ps_vectors st ! k) (ps_ops st)) h)"
    by (simp add: setpci_main_def po execute_schedule)
  fix x assume x: "x \<in> set (schedule (\<lambda>k. ps_vectors st ! k) (ps_ops st))"
  obtain dev p where xp: "x = (dev, p)" by (cases x)
  from x xp schedule_ops [of dev p "\<lambda>k. ps_vectors st ! k" "ps_ops st"]
  have "p \<in> set (ps_ops st)" by simp
  from w [OF this] have vw: "valid_width (width p)" .
  from valid_width_index [OF vw] valid_width_sint [OF vw]
  show "case x of (dev, p) \<Rightarrow>
          table_index_ok (nat (sint (width p))) \<and> table_index_ok (unat (width p))"
    by (simp add: xp)
next
  assume "parse_width (Some s) = Inr w"
  from parse_width_result [OF this] show "valid_width w" by simp
next
  show "parse_width None = Inr 0" by (simp add: parse_width_def)
next
  fix r assume "r \<in> set pci_reg_names"
  with table_widths show "rn_width r = 0 \<or> valid_width (rn_width r)" by (simp add: list_all_iff)
next
  assume "parse_register a q base = Inr q'"
  from parse_register_fields [OF this]
  show "width q' = width q \<or> width q = 0 \<and> valid_width (width q')" by simp
next
  assume "strchr_cut CHR ''='' c = (b1, value_s) \<and> strchr_cut CHR ''.'' b1 = (b2, None)
        \<and> strchr_cut CHR ''+'' b2 = (base, offset_s) \<and> value_s \<noteq> Some []
        \<and> parse_register a \<lparr>dev_vector = sel, cap = 0, addr = 0, width = 0, values = []\<rparr> base
            = Inr p1
        \<and> width p1 = 0"
  then show "parse_op a fp c sel = Inl Missing_width"
    using parse_op_missing_width [of c b1 value_s b2 base offset_s a sel p1 fp] by simp
next
  assume "parse_op a fq c' sel' = Inr p"
  then show "valid_width (width p)" by (rule parse_op_width)
qed

theorem accepted_widths_witness:
  "parse_ops LP64 slot_id_lib quiet_cfg three_devices (\<lambda>k. []) [''-s'', ''00:01.0'', ''04.B'', ''COMMAND'']
     = Inr \<lparr>ps_state = STATE_GOT_OP, ps_filter = (Some ''00:01.0'', None), ps_selected = Some 0,
            ps_vectors = [[1]],
            ps_ops = [\<lparr>dev_vector = 0, cap = 0, addr = 4, width = 1, values = []\<rparr>,
                      \<lparr>dev_vector = 0, cap = 0, addr = 4, width = 2, values = []\<rparr>],
            ps_warnings = []\<rparr>
   \<and> valid_width 1 \<and> valid_width 2
   \<and> table_index_ok 1 \<and> table_index_ok 2
   \<and> parse_width (Some ''w'') = Inr 2
   \<and> parse_op LP64 [] ''04=1'' 0 = Inl Missing_width"
proof -
  let ?st = "\<lparr>ps_state = STATE_GOT_OP, ps_filter = (Some ''00:01.0'', None), ps_selected = Some 0,
            ps_vectors = [[1]],
            ps_ops = [\<lparr>dev_vector = 0, cap = 0, addr = 4, width = 1, values = []\<rparr>,
                      \<lparr>dev_vector = 0, cap = 0, addr = 4, width = 2, values = []\<rparr>],
            ps_warnings = []\<rparr> :: (string option \<times> string option, nat) pstate"
  have po: "parse_ops LP64 slot_id_lib quiet_cfg three_devices (\<lambda>k. [])
              [''-s'', ''00:01.0'', ''04.B'', ''COMMAND''] = Inr ?st"
    by (simp add: ops_eval op_eval' reg_eval x32_eval)
  have sch: "schedule (\<lambda>k. ps_vectors ?st ! k) (ps_ops ?st)
               = [(1, \<lparr>dev_vector = 0, cap = 0, addr = 4, width = 1, values = []\<rparr>),
                  (1, \<lparr>dev_vector = 0, cap = 0, addr = 4, width = 2, values = []\<rparr>)]"
    by (simp add: schedule_def)
  have pw: "parse_width (Some ''w'') = Inr 2" by (simp add: parse_width_def)
  have c1: "strchr_cut CHR ''='' ''04=1'' = (''04'', Some ''1'')"
    and c2: "strchr_cut CHR ''.'' ''04'' = (''04'', None)"
    and c3: "strchr_cut CHR ''+'' ''04'' = (''04'', None)"
    by simp_all
  have pr: "parse_register LP64 \<lparr>dev_vector = 0, cap = 0, addr = 0, width = 0, values = []\<rparr> ''04''
              = Inr \<lparr>dev_vector = 0, cap = 0, addr = 4, width = 0, values = []\<rparr>"
    by (simp add: parse_register_def x32_eval)
  have pn: "parse_register LP64 \<lparr>dev_vector = 0, cap = 0, addr = 0, width = 0, values = []\<rparr> ''COMMAND''
              = Inr \<lparr>dev_vector = 0, cap = 0, addr = 4, width = 2, values = []\<rparr>"
    by (simp add: reg_eval x32_eval)
  have pp: "parse_op LP64 [] ''04.B'' 0 = Inr \<lparr>dev_vector = 0, cap = 0, addr = 4, width = 1, values = []\<rparr>"
    by (simp add: op_eval' parse_register_def x32_eval)
  from po sch pw c1 c2 c3 pr pn pp
    accepted_widths [where a = LP64 and L = slot_id_lib and cfg = quiet_cfg
      and devices = three_devices and ?f0.0 = "\<lambda>k. []"
      and args = "[''-s'', ''00:01.0'', ''04.B'', ''COMMAND'']" and st = ?st
      and A = mem_lib and h = mem_a5
      and s = "''w''" and w = 2
      and q = "\<lparr>dev_vector = 0, cap = 0, addr = 0, width = 0, values = []\<rparr>" and base = "''04''"
      and q' = "\<lparr>dev_vector = 0, cap = 0, addr = 4, width = 0, values = []\<rparr>"
      and c = "''04=1''" and ?b1.0 = "''04''" and value_s = "Some ''1''" and ?b2.0 = "''04''"
      and offset_s = None and sel = 0
      and ?p1.0 = "\<lparr>dev_vector = 0, cap = 0, addr = 4, width = 0, values = []\<rparr>" and fp = "[]"
      and fq = "[]" and c' = "''04.B''" and sel' = 0
      and p = "\<lparr>dev_vector = 0, cap = 0, addr = 4, width = 1, values = []\<rparr>"]
  show ?thesis by simp
qed

text \<open>
  C10. When the arguments parsed so far are followed by a filter option that the library
  accepts and that ends the arguments, \<^verbatim>\<open>parse_ops\<close> succeeds with the same vectors,
  selected vector, operations and warnings: only the filter and the state
  (\<^verbatim>\<open>STATE_GOT_FILTER\<close>) change, no vector is built for the trailing filter, and the
  program runs as without it. \<^verbatim>\<open>parse_ops\<close> dies with the error of no operation exactly
  when there is no argument at all.
\<close>

theorem trailing_filter:
  "(parse_ops a L cfg devices f0 args = Inr st \<and> is_filter_option c
      \<and> parse_filter L (c # rest)
          (if ps_state st = STATE_GOT_FILTER then ps_filter st else pci_filter_init L)
         = Inr ([], filt) \<longrightarrow>
      parse_ops a L cfg devices f0 (args @ c # rest)
        = Inr (st\<lparr>ps_filter := filt, ps_state := STATE_GOT_FILTER\<rparr>)
      \<and> setpci_main a L A cfg devices f0 (args @ c # rest) h
          = setpci_main a L A cfg devices f0 args h)
   \<and> ((\<exists>ws. parse_ops a L cfg devices f0 args = Inl (No_operation, ws)) = (args = []))"
proof (intro conjI impI)
  let ?init = "\<lparr>ps_state = STATE_INIT, ps_filter = pci_filter_init L, ps_selected = None,
              ps_vectors = [], ps_ops = [], ps_warnings = []\<rparr> :: ('a, 'b) pstate"
  let ?st' = "st\<lparr>ps_filter := filt, ps_state := STATE_GOT_FILTER\<rparr>"
  assume a: "parse_ops a L cfg devices f0 args = Inr st \<and> is_filter_option c
      \<and> parse_filter L (c # rest)
          (if ps_state st = STATE_GOT_FILTER then ps_filter st else pci_filter_init L)
         = Inr ([], filt)"
  then have po: "parse_ops a L cfg devices f0 args = Inr st" and fo: "is_filter_option c"
    and pf: "parse_filter L (c # rest)
          (if ps_state st = STATE_GOT_FILTER then ps_filter st else pci_filter_init L)
         = Inr ([], filt)"
    by simp_all
  from parse_ops_loop_of_parse_ops [OF po]
  have l: "parse_ops_loop a L cfg devices f0 ?init args = Inr st" by simp
  from fo have c: "(c \<noteq> [] \<and> hd c = CHR ''-'') = True" by (simp add: is_filter_option_def)
  have pf': "parse_filter L (c # rest)
          (if ps_state st \<noteq> STATE_GOT_FILTER then pci_filter_init L else ps_filter st)
         = Inr ([], filt)"
    using pf by (cases "ps_state st = STATE_GOT_FILTER") simp_all
  have s: "parse_ops_step a L cfg devices f0 st c rest = Inr (?st', [])"
    unfolding parse_ops_step_def c if_True pf' by simp
  have "parse_ops_loop a L cfg devices f0 ?init (args @ c # rest) = Inr ?st'"
    by (simp add: parse_ops_loop_append [OF l] s)
  then show r: "parse_ops a L cfg devices f0 (args @ c # rest) = Inr ?st'"
    by (simp add: parse_ops_def)
  show "setpci_main a L A cfg devices f0 (args @ c # rest) h
          = setpci_main a L A cfg devices f0 args h"
    by (simp add: setpci_main_def r po)
next
  let ?init = "\<lparr>ps_state = STATE_INIT, ps_filter = pci_filter_init L, ps_selected = None,
              ps_vectors = [], ps_ops = [], ps_warnings = []\<rparr> :: ('a, 'b) pstate"
  show "(\<exists>ws. parse_ops a L cfg devices f0 args = Inl (No_operation, ws)) = (args = [])"
  proof
    assume "args = []"
    then show "\<exists>ws. parse_ops a L cfg devices f0 args = Inl (No_operation, ws)"
      by (simp add: parse_ops_def)
  next
    assume e: "\<exists>ws. parse_ops a L cfg devices f0 args = Inl (No_operation, ws)"
    show "args = []"
    proof (rule ccontr)
      assume ne: "args \<noteq> []"
      show False
      proof (cases "parse_ops_loop a L cfg devices f0 ?init args")
        case (Inl ew)
        obtain e' ws' where ew: "ew = (e', ws')" by (cases ew)
        from parse_ops_loop_error [OF Inl [unfolded ew]] have "e' \<noteq> No_operation" .
        with e Inl ew show False by (simp add: parse_ops_def)
      next
        case (Inr st)
        from parse_ops_loop_state [OF Inr] ne have "ps_state st \<noteq> STATE_INIT" by simp
        with e Inr show False by (simp add: parse_ops_def)
      qed
    qed
  qed
qed

theorem trailing_filter_witness:
  "parse_ops LP64 slot_id_lib quiet_cfg three_devices (\<lambda>k. [])
      [''-s'', ''00:01.0'', ''04.B'', ''-d'', ''8086:7000'']
     = Inr \<lparr>ps_state = STATE_GOT_FILTER, ps_filter = (None, Some ''8086:7000''),
            ps_selected = Some 0, ps_vectors = [[1]],
            ps_ops = [\<lparr>dev_vector = 0, cap = 0, addr = 4, width = 1, values = []\<rparr>],
            ps_warnings = []\<rparr>
   \<and> parse_ops LP64 slot_id_lib quiet_cfg three_devices (\<lambda>k. []) [] = Inl (No_operation, [])"
proof -
  let ?st = "\<lparr>ps_state = STATE_GOT_OP, ps_filter = (Some ''00:01.0'', None), ps_selected = Some 0,
            ps_vectors = [[1]],
            ps_ops = [\<lparr>dev_vector = 0, cap = 0, addr = 4, width = 1, values = []\<rparr>],
            ps_warnings = []\<rparr> :: (string option \<times> string option, nat) pstate"
  have po: "parse_ops LP64 slot_id_lib quiet_cfg three_devices (\<lambda>k. [])
              [''-s'', ''00:01.0'', ''04.B''] = Inr ?st"
    by (simp add: ops_eval op_eval' parse_register_def x32_eval)
  have fo: "is_filter_option ''-d''" by (simp add: is_filter_option_def)
  have pf: "parse_filter slot_id_lib [''-d'', ''8086:7000'']
              (if ps_state ?st = STATE_GOT_FILTER then ps_filter ?st else pci_filter_init slot_id_lib)
              = Inr ([], (None, Some ''8086:7000''))"
    by (simp add: parse_filter_def slot_id_lib_def)
  from po fo pf
    trailing_filter [where a = LP64 and L = slot_id_lib and cfg = quiet_cfg
      and devices = three_devices and ?f0.0 = "\<lambda>k. []" and args = "[''-s'', ''00:01.0'', ''04.B'']"
      and st = ?st and c = "''-d''" and rest = "[''8086:7000'']"
      and filt = "(None, Some ''8086:7000'')", THEN conjunct1, THEN mp, THEN conjunct1]
  have "parse_ops LP64 slot_id_lib quiet_cfg three_devices (\<lambda>k. [])
      [''-s'', ''00:01.0'', ''04.B'', ''-d'', ''8086:7000'']
     = Inr (?st\<lparr>ps_filter := (None, Some ''8086:7000''), ps_state := STATE_GOT_FILTER\<rparr>)"
    by simp
  moreover
  from trailing_filter [where a = LP64 and L = slot_id_lib and cfg = quiet_cfg
      and devices = three_devices and ?f0.0 = "\<lambda>k. []" and args = "[]", THEN conjunct2]
  obtain ws where "parse_ops LP64 slot_id_lib quiet_cfg three_devices (\<lambda>k. []) [] = Inl (No_operation, ws)"
    by auto
  then have "parse_ops LP64 slot_id_lib quiet_cfg three_devices (\<lambda>k. []) [] = Inl (No_operation, [])"
    by (simp add: parse_ops_def)
  ultimately show ?thesis by simp
qed

end
